theory Spec2Isabelle
  imports Main "HOL-Library.Sublist"
begin

section \<open>Values and errors of the script\<close>

text \<open>
  The script \<^verbatim>\<open>update_readme.py\<close> formats two byte counts and substitutes them into the
  badge URLs of a README. Its functions are embedded here as HOL functions. A Python
  exception is a value of \<open>py_error\<close>; a function that may raise returns
  \<open>py_error + 'a\<close> with \<open>Inl\<close> for the exception.

  A \<open>char\<close> stands for one character of a Python string (code points below 256).

  \<open>Unmodelled\<close> is no exception of Python. It marks a call of \<^verbatim>\<open>re.sub\<close> whose pattern
  lies outside the part of \<^verbatim>\<open>re\<close> that is embedded here, so that nothing is said about
  such a call.
\<close>

datatype py_error =
  ValueError | OverflowError | ZeroDivisionError
  | FileNotFoundError | PermissionError | IsADirectoryError | UnicodeDecodeError
  | Unmodelled

text \<open>
  \<^verbatim>\<open>format_size\<close> is called with an \<^verbatim>\<open>int\<close> (the spec's examples) or with a
  \<^verbatim>\<open>str\<close> (an element of \<^verbatim>\<open>sys.argv\<close>).
\<close>

datatype py_value = PyInt int | PyStr string

section \<open>\<^verbatim>\<open>int(x)\<close>\<close>

text \<open>
  The characters \<^verbatim>\<open>int\<close> skips around a number, below code point 256: tab, line feed,
  vertical tab, form feed, carriage return and space, and the two non-ASCII spaces NEL (133)
  and no-break space (160).
\<close>

definition is_space :: "char \<Rightarrow> bool" where
  "is_space c = ((of_char c :: nat) \<in> {9, 10, 11, 12, 13, 32, 133, 160})"

definition is_digit :: "char \<Rightarrow> bool" where
  "is_digit c = (48 \<le> (of_char c :: nat) \<and> (of_char c :: nat) \<le> 57)"

definition digit_val :: "char \<Rightarrow> nat" where
  "digit_val c = of_char c - 48"

definition py_strip :: "string \<Rightarrow> string" where
  "py_strip s = rev (dropWhile is_space (rev (dropWhile is_space s)))"

text \<open>
  The digits of a decimal literal: at least one digit, and single underscores only between
  two digits. \<open>prev\<close> says whether the character before was a digit.
\<close>

fun parse_digits :: "nat \<Rightarrow> bool \<Rightarrow> string \<Rightarrow> nat option" where
  "parse_digits acc prev [] = (if prev then Some acc else None)"
| "parse_digits acc prev (c # cs) =
     (if is_digit c then parse_digits (10 * acc + digit_val c) True cs
      else if c = CHR ''_'' \<and> prev then parse_digits acc False cs
      else None)"

text \<open>
  The limit of CPython on the number of digits of a string that \<^verbatim>\<open>int\<close> converts
  (\<^verbatim>\<open>sys.get_int_max_str_digits()\<close>, at its default).
\<close>

definition int_max_str_digits :: nat where
  "int_max_str_digits = 4300"

text \<open>
  \<^verbatim>\<open>int(s)\<close> for a string, base 10: surrounding whitespace is dropped, one sign is allowed,
  anything else raises \<^verbatim>\<open>ValueError\<close>, and so does a string with more digits than the
  limit (the sign, the underscores and the whitespace do not count, leading zeros do).
\<close>

definition int_of_str :: "string \<Rightarrow> py_error + int" where
  "int_of_str s =
     (case py_strip s of
        [] \<Rightarrow> Inl ValueError
      | c # cs \<Rightarrow>
          if int_max_str_digits < length (filter is_digit (c # cs)) then Inl ValueError
          else if c = CHR ''-'' then
            (case parse_digits 0 False cs of None \<Rightarrow> Inl ValueError | Some n \<Rightarrow> Inr (- int n))
          else if c = CHR ''+'' then
            (case parse_digits 0 False cs of None \<Rightarrow> Inl ValueError | Some n \<Rightarrow> Inr (int n))
          else
            (case parse_digits 0 False (c # cs) of None \<Rightarrow> Inl ValueError | Some n \<Rightarrow> Inr (int n)))"

fun py_int :: "py_value \<Rightarrow> py_error + int" where
  "py_int (PyInt n) = Inr n"
| "py_int (PyStr s) = int_of_str s"

section \<open>True division of integers and \<^verbatim>\<open>.2f\<close>\<close>

text \<open>
  A finite IEEE 754 double is a sign, a mantissa and an exponent: the value of
  \<open>PyFloat neg m e\<close> is \<open>m * 2 ^ e\<close>, negated when \<open>neg\<close> holds. All arithmetic on it is
  exact integer arithmetic.
\<close>

datatype py_float = PyFloat (negative: bool) (mantissa: nat) (exponent: int)

fun bit_length :: "nat \<Rightarrow> nat" where
  "bit_length n = (if n = 0 then 0 else Suc (bit_length (n div 2)))"

declare bit_length.simps [simp del]

text \<open>The quotient \<open>num / den\<close> rounded to the nearest integer, ties to the even one.\<close>

definition round_half_even :: "nat \<Rightarrow> nat \<Rightarrow> nat" where
  "round_half_even num den =
     (let q = num div den; r = num mod den
      in if 2 * r < den then q
         else if den < 2 * r then q + 1
         else if even q then q else q + 1)"

text \<open>\<open>n / (d * 2 ^ e)\<close> as a fraction of naturals, for an exponent of either sign.\<close>

definition scaled_round :: "nat \<Rightarrow> nat \<Rightarrow> int \<Rightarrow> nat" where
  "scaled_round n d e =
     (if 0 \<le> e then round_half_even n (d * 2 ^ nat e)
      else round_half_even (n * 2 ^ nat (- e)) d)"

text \<open>
  \<^verbatim>\<open>a / b\<close> on two \<^verbatim>\<open>int\<close>s: the correctly rounded double (53 bits, ties to even,
  subnormals below the exponent \<open>-1074\<close>), \<^verbatim>\<open>ZeroDivisionError\<close> when \<open>b\<close> is zero and
  \<^verbatim>\<open>OverflowError\<close> when the rounded quotient reaches \<open>2 ^ 1024\<close>.
\<close>

text \<open>
  The exponent of the double nearest to \<open>n / d\<close> (both positive): the one that puts the
  scaled quotient between \<open>2 ^ 52\<close> and \<open>2 ^ 53\<close>, and \<open>-1074\<close> for a subnormal.
\<close>

definition quotient_exponent :: "nat \<Rightarrow> nat \<Rightarrow> int" where
  "quotient_exponent n d =
     (let diff = int (bit_length n) - int (bit_length d);
          big = (if 0 \<le> diff then d * 2 ^ nat diff \<le> n else d \<le> n * 2 ^ nat (- diff))
      in max (if big then diff - 52 else diff - 53) (- 1074))"

definition int_true_div :: "int \<Rightarrow> int \<Rightarrow> py_error + py_float" where
  "int_true_div a b =
     (if b = 0 then Inl ZeroDivisionError
      else
        let neg = ((a < 0) \<noteq> (b < 0)); n = nat \<bar>a\<bar>; d = nat \<bar>b\<bar>
        in if n = 0 then Inr (PyFloat neg 0 0)
           else
             let e = quotient_exponent n d;
                 m = scaled_round n d e
             in if 971 < e \<or> (e = 971 \<and> 2 ^ 53 \<le> m) then Inl OverflowError
                else Inr (PyFloat neg m e))"

text \<open>The decimal digit \<open>k\<close> (below ten) as a character.\<close>

definition digit_char :: "nat \<Rightarrow> char" where
  "digit_char k = ''0123456789'' ! k"

fun dec :: "nat \<Rightarrow> string" where
  "dec n = (if n < 10 then [digit_char n] else dec (n div 10) @ [digit_char (n mod 10)])"

declare dec.simps [simp del]

text \<open>
  \<^verbatim>\<open>f"{x:.2f}"\<close>: the exact value of the double, rounded to hundredths with ties to even,
  written with a sign when the double is negative, the integer part, a point and two
  digits.
\<close>

definition hundredths :: "py_float \<Rightarrow> nat" where
  "hundredths x = scaled_round (mantissa x * 100) 1 (- exponent x)"

definition format_2f :: "py_float \<Rightarrow> string" where
  "format_2f x =
     (let h = hundredths x
      in (if negative x then ''-'' else '''') @ dec (h div 100) @ ''.'' @
         [digit_char (h mod 100 div 10), digit_char (h mod 10)])"

text \<open>\<^verbatim>\<open>s.rstrip(c)\<close> for a single character \<open>c\<close>.\<close>

definition rstrip :: "char \<Rightarrow> string \<Rightarrow> string" where
  "rstrip c s = rev (dropWhile (\<lambda>x. x = c) (rev s))"

section \<open>\<^verbatim>\<open>format_size\<close>\<close>

definition format_size :: "py_value \<Rightarrow> py_error + string" where
  "format_size size_in_bytes =
     (case py_int size_in_bytes of
        Inl err \<Rightarrow> Inl err
      | Inr n \<Rightarrow>
          if n < 1000 * 1000 then
            (case int_true_div n 1000 of
               Inl err \<Rightarrow> Inl err
             | Inr size_in_kb \<Rightarrow>
                 Inr (rstrip (CHR ''.'') (rstrip (CHR ''0'') (format_2f size_in_kb)) @ '' KB''))
          else
            (case int_true_div n (1000 * 1000) of
               Inl err \<Rightarrow> Inl err
             | Inr size_in_mb \<Rightarrow>
                 Inr (rstrip (CHR ''.'') (rstrip (CHR ''0'') (format_2f size_in_mb)) @ '' MB'')))"

section \<open>\<^verbatim>\<open>re.sub\<close> with the badge pattern\<close>

text \<open>
  The pattern is \<^verbatim>\<open>fr"(https://img.shields.io/badge/{badge_name}-)(.*?)(-blue)"\<close>. Each
  character of the first and third group is one atom of the regular expression: a dot
  matches any character but the line feed, every other character of the pattern text
  matches itself. Group 2 is the lazy \<^verbatim>\<open>.*?\<close>. This section is the matcher for badge
  names in which the dot is the only character special to \<^verbatim>\<open>re\<close> (\<open>plain_name\<close>), as
  in the two names the script passes: group 1 is then a sequence of atoms. The next
  section has the matcher for names with repetitions, from which \<^verbatim>\<open>update_badge\<close> is
  built; on a plain name the two agree (\<open>update_badge_plain\<close> below).
\<close>

definition newline :: char where
  "newline = CHR 0x0A"

datatype atom = Lit char | AnyChar

fun atom_of :: "char \<Rightarrow> atom" where
  "atom_of c = (if c = CHR ''.'' then AnyChar else Lit c)"

fun atom_ok :: "atom \<Rightarrow> char \<Rightarrow> bool" where
  "atom_ok (Lit x) c = (c = x)"
| "atom_ok AnyChar c = (c \<noteq> newline)"

definition regex_special :: "char \<Rightarrow> bool" where
  "regex_special c = (c \<in> set (''^$*+?{}[]|()'' @ [CHR 0x5C]))"

definition plain_name :: "string \<Rightarrow> bool" where
  "plain_name badge_name = list_all (\<lambda>c. \<not> regex_special c) badge_name"

definition badge_url :: string where
  "badge_url = ''https://img.shields.io/badge/''"

definition group1 :: "string \<Rightarrow> atom list" where
  "group1 badge_name = map atom_of (badge_url @ badge_name @ ''-'')"

definition group3 :: "atom list" where
  "group3 = map atom_of ''-blue''"

text \<open>A sequence of atoms against the start of the text: the matched text and the rest.\<close>

fun match_atoms :: "atom list \<Rightarrow> string \<Rightarrow> (string \<times> string) option" where
  "match_atoms [] s = Some ([], s)"
| "match_atoms (a # as) [] = None"
| "match_atoms (a # as) (c # cs) =
     (if atom_ok a c
      then (case match_atoms as cs of None \<Rightarrow> None | Some (m, rest) \<Rightarrow> Some (c # m, rest))
      else None)"

text \<open>
  \<^verbatim>\<open>(.*?)(-blue)\<close>: the lazy group takes no character if group 3 matches here, and
  otherwise one more character that is not a line feed. The result is group 2, group 3
  and the rest of the text.
\<close>

fun lazy_mid :: "string \<Rightarrow> (string \<times> string \<times> string) option" where
  "lazy_mid s =
     (case match_atoms group3 s of
        Some (g3, rest) \<Rightarrow> Some ([], g3, rest)
      | None \<Rightarrow>
          (case s of
             [] \<Rightarrow> None
           | c # cs \<Rightarrow>
               if c = newline then None
               else (case lazy_mid cs of
                       None \<Rightarrow> None
                     | Some (g2, g3, rest) \<Rightarrow> Some (c # g2, g3, rest))))"

declare lazy_mid.simps [simp del]

text \<open>The whole pattern against the start of the text: the three groups and the rest.\<close>

definition match_here :: "string \<Rightarrow> string \<Rightarrow> (string \<times> string \<times> string \<times> string) option" where
  "match_here badge_name s =
     (case match_atoms (group1 badge_name) s of
        None \<Rightarrow> None
      | Some (g1, r1) \<Rightarrow>
          (case lazy_mid r1 of
             None \<Rightarrow> None
           | Some (g2, g3, rest) \<Rightarrow> Some (g1, g2, g3, rest)))"

lemma match_atoms_length:
  "match_atoms as s = Some (m, rest) \<Longrightarrow> length s = length as + length rest"
  by (induction as s arbitrary: m rule: match_atoms.induct)
     (auto split: if_splits option.splits)

lemma lazy_mid_length:
  "lazy_mid s = Some (g2, g3, rest) \<Longrightarrow> length rest < length s"
proof (induction s arbitrary: g2)
  case Nil
  then show ?case
    by (simp add: lazy_mid.simps group3_def split: option.splits)
next
  case (Cons c cs)
  show ?case
  proof (cases "match_atoms group3 (c # cs)")
    case None
    with Cons.prems obtain g2' where "lazy_mid cs = Some (g2', g3, rest)"
      by (subst (asm) lazy_mid.simps) (auto split: if_splits option.splits)
    from Cons.IH [OF this] show ?thesis by simp
  next
    case (Some p)
    with Cons.prems have "match_atoms group3 (c # cs) = Some (g3, rest)"
      by (subst (asm) lazy_mid.simps) (auto split: prod.splits)
    from match_atoms_length [OF this] show ?thesis by (simp add: group3_def)
  qed
qed

lemma match_here_length:
  "match_here badge_name s = Some (g1, g2, g3, rest) \<Longrightarrow> length rest < length s"
  by (auto simp: match_here_def split: option.splits
      dest!: match_atoms_length lazy_mid_length)

text \<open>
  \<^verbatim>\<open>re.sub(pattern, lambda match: match.group(1) + formatted_size + match.group(3), content)\<close>
  for a plain badge name: the text is scanned from the left; where the pattern matches, the
  match is replaced and the scan goes on behind it, elsewhere the character is kept.
\<close>

function re_sub :: "string \<Rightarrow> string \<Rightarrow> string \<Rightarrow> string" where
  "re_sub badge_name formatted_size s =
     (case match_here badge_name s of
        Some (g1, g2, g3, rest) \<Rightarrow> g1 @ formatted_size @ g3 @ re_sub badge_name formatted_size rest
      | None \<Rightarrow>
          (case s of
             [] \<Rightarrow> []
           | c # cs \<Rightarrow> c # re_sub badge_name formatted_size cs))"
  by pat_completeness auto
termination
  by (relation "measure (\<lambda>(badge_name, formatted_size, s). length s)")
     (auto dest: match_here_length)

declare re_sub.simps [simp del]

section \<open>Badge names with repetition\<close>

text \<open>
  The badge name is put into the pattern as it is, without \<^verbatim>\<open>re.escape\<close>: a character
  of the name that is special to \<^verbatim>\<open>re\<close> is pattern syntax. Embedded here are the names
  built from characters that are not special, the dot, and the greedy repetitions \<^verbatim>\<open>?\<close>,
  \<^verbatim>\<open>*\<close> and \<^verbatim>\<open>+\<close> of one character, of the dot, or of a group \<^verbatim>\<open>(?:...)\<close> of such
  characters and dots, which captures nothing, so that the three groups of the pattern keep
  their numbers. An item of group 1 is a sequence of atoms with its repetition.
\<close>

datatype repeat = Once | Optional | Star | Plus

type_synonym item = "repeat \<times> atom list"

text \<open>The atoms of a group, behind its \<^verbatim>\<open>(?:\<close>, up to the closing parenthesis.\<close>

fun parse_group :: "string \<Rightarrow> (atom list \<times> string) option" where
  "parse_group [] = None"
| "parse_group (c # cs) =
     (if c = CHR '')'' then Some ([], cs)
      else if regex_special c then None
      else (case parse_group cs of
              None \<Rightarrow> None
            | Some (as, rest) \<Rightarrow> Some (atom_of c # as, rest)))"

text \<open>What is repeated: one character, the dot, or a group that is not empty.\<close>

fun parse_unit :: "string \<Rightarrow> (atom list \<times> string) option" where
  "parse_unit [] = None"
| "parse_unit (c # cs) =
     (if c = CHR ''('' then
        (case cs of
           q # k # rest \<Rightarrow>
             if q = CHR ''?'' \<and> k = CHR '':'' then
               (case parse_group rest of
                  None \<Rightarrow> None
                | Some (as, rest') \<Rightarrow> if as = [] then None else Some (as, rest'))
             else None
         | _ \<Rightarrow> None)
      else if regex_special c then None
      else Some ([atom_of c], cs))"

fun parse_repeat :: "string \<Rightarrow> repeat \<times> string" where
  "parse_repeat [] = (Once, [])"
| "parse_repeat (c # cs) =
     (if c = CHR ''?'' then (Optional, cs)
      else if c = CHR ''*'' then (Star, cs)
      else if c = CHR ''+'' then (Plus, cs)
      else (Once, c # cs))"

lemma parse_group_length:
  "parse_group s = Some (as, rest) \<Longrightarrow> length rest < length s"
  by (induction s arbitrary: as) (auto split: if_splits option.splits)

lemma parse_unit_length:
  "parse_unit s = Some (as, rest) \<Longrightarrow> length rest < length s"
  by (cases s) (auto split: if_splits option.splits list.splits dest!: parse_group_length)

lemma parse_repeat_length:
  "parse_repeat s = (r, rest) \<Longrightarrow> length rest \<le> length s"
  by (cases s) (auto split: if_splits)

text \<open>
  The items of a pattern text. A second repetition character behind a repetition (the lazy
  and the possessive forms) and every other use of a special character are outside the
  model: the result is \<open>None\<close>.
\<close>

function parse_items :: "string \<Rightarrow> item list option" where
  "parse_items s =
     (case s of
        [] \<Rightarrow> Some []
      | c # cs \<Rightarrow>
          (case parse_unit (c # cs) of
             None \<Rightarrow> None
           | Some (as, rest) \<Rightarrow>
               (case parse_repeat rest of
                  (r, rest') \<Rightarrow>
                    (case parse_items rest' of
                       None \<Rightarrow> None
                     | Some its \<Rightarrow> Some ((r, as) # its)))))"
  by pat_completeness auto
termination
  by (relation "measure length")
     (auto simp del: parse_unit.simps parse_repeat.simps
        dest!: parse_unit_length parse_repeat_length [OF sym])

declare parse_items.simps [simp del]

text \<open>How often in a row the atoms match at the start of the text.\<close>

function max_reps :: "atom list \<Rightarrow> string \<Rightarrow> nat" where
  "max_reps as s =
     (if as = [] then 0
      else (case match_atoms as s of
              None \<Rightarrow> 0
            | Some (m, rest) \<Rightarrow> Suc (max_reps as rest)))"
  by pat_completeness auto
termination
  by (relation "measure (\<lambda>(as, s). length s)")
     (auto dest!: match_atoms_length)

declare max_reps.simps [simp del]

text \<open>
  The numbers of repetitions that the matcher tries, in its order, when the atoms match
  \<open>n\<close> times in a row: a greedy repetition takes all it can and gives back one at a time.
\<close>

fun tries :: "repeat \<Rightarrow> nat \<Rightarrow> nat list" where
  "tries Once n = (if 1 \<le> n then [1] else [])"
| "tries Optional n = (if 1 \<le> n then [1, 0] else [0])"
| "tries Star n = rev [0..<Suc n]"
| "tries Plus n = rev [1..<Suc n]"

text \<open>
  The lengths of the text that a sequence of items can match at the start of the text, in
  the order in which the backtracking matcher comes to them.
\<close>

fun prefix_lengths :: "item list \<Rightarrow> string \<Rightarrow> nat list" where
  "prefix_lengths [] s = [0]"
| "prefix_lengths ((r, as) # its) s =
     concat (map (\<lambda>k. map (\<lambda>j. k * length as + j)
                          (prefix_lengths its (drop (k * length as) s)))
                 (tries r (max_reps as s)))"

text \<open>
  The first of these lengths behind which \<^verbatim>\<open>(.*?)(-blue)\<close> matches gives the match: the
  three groups and the rest of the text.
\<close>

fun first_match :: "nat list \<Rightarrow> string \<Rightarrow> (string \<times> string \<times> string \<times> string) option" where
  "first_match [] s = None"
| "first_match (k # ks) s =
     (case lazy_mid (drop k s) of
        None \<Rightarrow> first_match ks s
      | Some (g2, g3, rest) \<Rightarrow> Some (take k s, g2, g3, rest))"

definition match_items :: "item list \<Rightarrow> string \<Rightarrow> (string \<times> string \<times> string \<times> string) option" where
  "match_items its s = first_match (prefix_lengths its s) s"

lemma first_match_length:
  "first_match ks s = Some (g1, g2, g3, rest) \<Longrightarrow> length rest < length s"
  by (induction ks) (auto split: option.splits dest!: lazy_mid_length)

lemma match_items_length:
  "match_items its s = Some (g1, g2, g3, rest) \<Longrightarrow> length rest < length s"
  unfolding match_items_def by (rule first_match_length)

text \<open>\<^verbatim>\<open>re.sub\<close> for a pattern whose first group is the given items.\<close>

function re_sub_items :: "item list \<Rightarrow> string \<Rightarrow> string \<Rightarrow> string" where
  "re_sub_items its formatted_size s =
     (case match_items its s of
        Some (g1, g2, g3, rest) \<Rightarrow> g1 @ formatted_size @ g3 @ re_sub_items its formatted_size rest
      | None \<Rightarrow>
          (case s of
             [] \<Rightarrow> []
           | c # cs \<Rightarrow> c # re_sub_items its formatted_size cs))"
  by pat_completeness auto
termination
  by (relation "measure (\<lambda>(its, formatted_size, s). length s)")
     (auto dest: match_items_length)

declare re_sub_items.simps [simp del]

section \<open>\<^verbatim>\<open>update_badge\<close>\<close>

text \<open>
  \<^verbatim>\<open>format_size\<close> is called first; then the pattern is built from the text of group 1
  (the URL, the badge name, the hyphen) and \<^verbatim>\<open>re.sub\<close> runs. For a badge name with
  other syntax of \<^verbatim>\<open>re\<close> than the one embedded above the result is the marker
  \<open>Unmodelled\<close>; no statement below is about such a call.
\<close>

definition update_badge :: "string \<Rightarrow> string \<Rightarrow> py_value \<Rightarrow> py_error + string" where
  "update_badge content badge_name size_in_bytes =
     (case format_size size_in_bytes of
        Inl err \<Rightarrow> Inl err
      | Inr formatted_size \<Rightarrow>
          (case parse_items (badge_url @ badge_name @ ''-'') of
             None \<Rightarrow> Inl Unmodelled
           | Some its \<Rightarrow> Inr (re_sub_items its formatted_size content)))"

section \<open>The script\<close>

text \<open>
  What the file system does with \<^verbatim>\<open>README.md\<close>. \<open>readme\<close> is the result of opening the
  file for reading and reading all of it: the exception that this raises
  (\<^verbatim>\<open>FileNotFoundError\<close> without the file, \<^verbatim>\<open>PermissionError\<close> when the process may not
  read it, \<^verbatim>\<open>IsADirectoryError\<close>, \<^verbatim>\<open>UnicodeDecodeError\<close> when its bytes are not text in
  the encoding of the locale), or else the characters that the bytes decode to, before the
  translation of line ends. \<open>write_error\<close> is the exception that opening the file for
  writing raises, if any; the file is then left as it is. A text that was decoded is
  encoded again without error, and to the same bytes; a failure of the device while the
  text is written is not part of the model.
\<close>

record file_system =
  readme :: "py_error + string"
  write_error :: "py_error option"

text \<open>
  How the process ends: \<^verbatim>\<open>sys.exit\<close> or the end of the script give an exit status; an
  exception nobody catches ends the process with a traceback and the status 1.
\<close>

datatype outcome = Exit nat | Uncaught py_error

fun exit_status :: "outcome \<Rightarrow> nat" where
  "exit_status (Exit n) = n"
| "exit_status (Uncaught err) = 1"

record run =
  stdout :: "string list"
  files :: file_system
  outcome :: outcome

definition carriage_return :: char where
  "carriage_return = CHR 0x0D"

text \<open>
  \<^verbatim>\<open>open("README.md", "r")\<close> reads in text mode with universal newlines: \<^verbatim>\<open>\r\n\<close> and a
  lone \<^verbatim>\<open>\r\<close> arrive as \<^verbatim>\<open>\n\<close>.
\<close>

fun read_text :: "string \<Rightarrow> string" where
  "read_text [] = []"
| "read_text [c] = (if c = carriage_return then [newline] else [c])"
| "read_text (c # d # ds) =
     (if c = carriage_return
      then (if d = newline then newline # read_text ds else newline # read_text (d # ds))
      else c # read_text (d # ds))"

text \<open>
  \<^verbatim>\<open>open("README.md", "w")\<close> writes in text mode: every \<^verbatim>\<open>\n\<close> leaves as the platform's
  line separator \<^verbatim>\<open>os.linesep\<close>.
\<close>

definition write_text :: "string \<Rightarrow> string \<Rightarrow> string" where
  "write_text linesep s = concat (map (\<lambda>c. if c = newline then linesep else [c]) s)"

definition usage :: string where
  "usage = ''Usage: python update_readme.py <server binary size> <wasm file size>''"

text \<open>
  The \<^verbatim>\<open>__main__\<close> block, run with \<^verbatim>\<open>sys.argv\<close> (the script's name first) on a platform
  with the given line separator.
\<close>

definition main :: "string \<Rightarrow> string list \<Rightarrow> file_system \<Rightarrow> run" where
  "main linesep argv fs =
     (if length argv \<noteq> 3 then
        \<lparr>stdout = [usage], files = fs, outcome = Exit 1\<rparr>
      else
        (case readme fs of
           Inl err \<Rightarrow> \<lparr>stdout = [], files = fs, outcome = Uncaught err\<rparr>
         | Inr raw \<Rightarrow>
             (case update_badge (read_text raw) ''binary_size'' (PyStr (argv ! 1)) of
                Inl err \<Rightarrow> \<lparr>stdout = [], files = fs, outcome = Uncaught err\<rparr>
              | Inr content1 \<Rightarrow>
                  (case update_badge content1 ''wasm_size'' (PyStr (argv ! 2)) of
                     Inl err \<Rightarrow> \<lparr>stdout = [], files = fs, outcome = Uncaught err\<rparr>
                   | Inr content2 \<Rightarrow>
                       (case write_error fs of
                          Some err \<Rightarrow> \<lparr>stdout = [], files = fs, outcome = Uncaught err\<rparr>
                        | None \<Rightarrow>
                            \<lparr>stdout = [],
                             files = fs\<lparr>readme := Inr (write_text linesep content2)\<rparr>,
                             outcome = Exit 0\<rparr>)))))"

section \<open>The occurrences of the pattern\<close>

text \<open>
  What one pass over the text from the left finds (the matches \<^verbatim>\<open>re.finditer\<close> yields, with
  the characters between them): a kept character, or an occurrence of the pattern with
  its three groups.
\<close>

datatype piece = Kept char | Badge string string string

function scan :: "string \<Rightarrow> string \<Rightarrow> piece list" where
  "scan badge_name s =
     (case match_here badge_name s of
        Some (g1, g2, g3, rest) \<Rightarrow> Badge g1 g2 g3 # scan badge_name rest
      | None \<Rightarrow>
          (case s of
             [] \<Rightarrow> []
           | c # cs \<Rightarrow> Kept c # scan badge_name cs))"
  by pat_completeness auto
termination
  by (relation "measure (\<lambda>(badge_name, s). length s)")
     (auto dest: match_here_length)

declare scan.simps [simp del]

text \<open>The text a piece stands for, and the text \<^verbatim>\<open>re.sub\<close> puts in its place.\<close>

fun original :: "piece \<Rightarrow> string" where
  "original (Kept c) = [c]"
| "original (Badge g1 g2 g3) = g1 @ g2 @ g3"

fun rewritten :: "string \<Rightarrow> piece \<Rightarrow> string" where
  "rewritten formatted_size (Kept c) = [c]"
| "rewritten formatted_size (Badge g1 g2 g3) = g1 @ formatted_size @ g3"

text \<open>
  An occurrence is well formed when its first group matches the atoms of the prefix, its
  third group is the suffix and its second group stays on one line.
\<close>

fun well_formed :: "string \<Rightarrow> piece \<Rightarrow> bool" where
  "well_formed badge_name (Kept c) = True"
| "well_formed badge_name (Badge g1 g2 g3) =
     (list_all2 atom_ok (group1 badge_name) g1 \<and> g3 = ''-blue'' \<and> newline \<notin> set g2)"

text \<open>Whether the pattern occurs anywhere in the text (\<^verbatim>\<open>re.search\<close> finds a match).\<close>

fun has_match :: "string \<Rightarrow> string \<Rightarrow> bool" where
  "has_match badge_name [] = (match_here badge_name [] \<noteq> None)"
| "has_match badge_name (c # cs) =
     (match_here badge_name (c # cs) \<noteq> None \<or> has_match badge_name cs)"

text \<open>
  A marker of the badge: the literal prefix with the badge name, a middle field on one
  line, and the suffix.
\<close>

fun marker :: "string \<Rightarrow> piece \<Rightarrow> bool" where
  "marker badge_name (Kept c) = True"
| "marker badge_name (Badge g1 g2 g3) =
     (g1 = badge_url @ badge_name @ ''-'' \<and> g3 = ''-blue'' \<and> newline \<notin> set g2)"

text \<open>
  The atoms of the URL in group 1. Two of them are dots, which match any character of a
  line. A text holds only the literal URL when, wherever these atoms match in it, the text
  at that place is the URL itself.
\<close>

definition url_atoms :: "atom list" where
  "url_atoms = map atom_of badge_url"

definition literal_url_here :: "string \<Rightarrow> bool" where
  "literal_url_here t \<longleftrightarrow> match_atoms url_atoms t = None \<or> prefix badge_url t"

fun only_literal_url :: "string \<Rightarrow> bool" where
  "only_literal_url [] = True"
| "only_literal_url (c # cs) = (literal_url_here (c # cs) \<and> only_literal_url cs)"

text \<open>The characters that a formatted size is made of.\<close>

definition size_alphabet :: string where
  "size_alphabet = ''-0123456789. KMB''"

section \<open>Lines and formatted sizes\<close>

text \<open>The text up to the first line feed.\<close>

definition first_line :: "string \<Rightarrow> string" where
  "first_line s = takeWhile (\<lambda>c. c \<noteq> newline) s"

text \<open>
  The characters of a formatted size: no \<^verbatim>\<open>b\<close> and no line feed, and the text does not
  end with a hyphen, so the suffix \<^verbatim>\<open>-blue\<close> cannot start inside it.
\<close>

definition size_char :: "char \<Rightarrow> bool" where
  "size_char c \<longleftrightarrow> c \<noteq> CHR ''b'' \<and> c \<noteq> newline"

definition size_text :: "string \<Rightarrow> bool" where
  "size_text f \<longleftrightarrow>
     CHR ''b'' \<notin> set f \<and> newline \<notin> set f \<and> (f = [] \<or> last f \<noteq> CHR ''-'')"

section \<open>Evaluation on concrete inputs\<close>

lemma bit_length_0: "bit_length 0 = 0"
  by (simp add: bit_length.simps)

lemma bit_length_1: "bit_length 1 = 1"
  by (simp add: bit_length.simps)

lemma bit_length_Bit0: "bit_length (numeral (Num.Bit0 k)) = bit_length (numeral k) + 1"
  by (subst bit_length.simps) simp

lemma bit_length_Bit1: "bit_length (numeral (Num.Bit1 k)) = bit_length (numeral k) + 1"
  by (subst bit_length.simps) simp

lemma dec_small: "n < 10 \<Longrightarrow> dec n = [digit_char n]"
  by (simp add: dec.simps)

lemma dec_big: "\<not> n < 10 \<Longrightarrow> dec n = dec (n div 10) @ [digit_char (n mod 10)]"
  by (subst dec.simps) simp

lemmas format_size_eval =
  format_size_def int_true_div_def quotient_exponent_def scaled_round_def round_half_even_def
  format_2f_def hundredths_def rstrip_def digit_char_def Let_def
  bit_length_0 bit_length_1 bit_length_Bit0 bit_length_Bit1 dec_small dec_big
  int_of_str_def int_max_str_digits_def py_strip_def is_space_def is_digit_def digit_val_def

lemmas regex_eval =
  re_sub.simps scan.simps match_here_def lazy_mid.simps group1_def
  badge_url_def group3_def newline_def plain_name_def regex_special_def

lemmas items_eval =
  parse_items.simps max_reps.simps re_sub_items.simps match_items_def

lemmas main_eval = main_def write_text_def carriage_return_def usage_def

section \<open>Matching and substitution\<close>

lemma match_atoms_iff:
  "match_atoms as s = Some (m, rest) \<longleftrightarrow>
     s = m @ rest \<and> list_all2 atom_ok as m"
proof (induction as arbitrary: s m)
  case Nil
  show ?case by auto
next
  case (Cons a as)
  show ?case
  proof (cases s)
    case Nil
    then show ?thesis by auto
  next
    case s: (Cons c cs)
    show ?thesis
    proof (cases "atom_ok a c")
      case False
      with s show ?thesis by (auto simp: list_all2_Cons1)
    next
      case True
      have "match_atoms (a # as) s = Some (m, rest) \<longleftrightarrow>
              (\<exists>m'. match_atoms as cs = Some (m', rest) \<and> m = c # m')"
        using s True by (auto split: option.splits)
      also have "\<dots> \<longleftrightarrow> (\<exists>m'. cs = m' @ rest \<and> list_all2 atom_ok as m' \<and> m = c # m')"
        by (simp add: Cons.IH)
      also have "\<dots> \<longleftrightarrow> s = m @ rest \<and> list_all2 atom_ok (a # as) m"
        using s True by (auto simp: list_all2_Cons1)
      finally show ?thesis .
    qed
  qed
qed

lemma match_atoms_group3:
  "match_atoms group3 s = Some (g3, rest) \<longleftrightarrow> g3 = ''-blue'' \<and> s = ''-blue'' @ rest"
  by (auto simp: match_atoms_iff group3_def list_all2_Cons1)

lemma lazy_mid_Some:
  "lazy_mid s = Some (g2, g3, rest) \<Longrightarrow>
     s = g2 @ g3 @ rest \<and> g3 = ''-blue'' \<and> newline \<notin> set g2"
proof (induction s arbitrary: g2)
  case Nil
  then show ?case
    by (subst (asm) lazy_mid.simps) (auto split: option.splits simp: match_atoms_group3)
next
  case (Cons c cs)
  show ?case
  proof (cases "match_atoms group3 (c # cs)")
    case None
    with Cons.prems obtain g2' where *: "lazy_mid cs = Some (g2', g3, rest)" "g2 = c # g2'" "c \<noteq> newline"
      by (subst (asm) lazy_mid.simps) (auto split: if_splits option.splits)
    from Cons.IH [OF *(1)] * show ?thesis by simp
  next
    case (Some p)
    with Cons.prems have "match_atoms group3 (c # cs) = Some (g3, rest)" "g2 = []"
      by (subst (asm) lazy_mid.simps; auto split: prod.splits)+
    then show ?thesis by (simp add: match_atoms_group3)
  qed
qed

lemma match_here_Some:
  "match_here badge_name s = Some (g1, g2, g3, rest) \<Longrightarrow>
     s = g1 @ g2 @ g3 @ rest \<and> list_all2 atom_ok (group1 badge_name) g1 \<and>
     g3 = ''-blue'' \<and> newline \<notin> set g2"
  by (auto simp: match_here_def match_atoms_iff split: option.splits dest!: lazy_mid_Some)

lemma group1_nonempty: "group1 badge_name \<noteq> []"
  by (simp add: group1_def)

lemma match_here_Nil: "match_here badge_name [] = None"
  by (cases "group1 badge_name") (auto simp: match_here_def group1_nonempty)

lemma re_sub_match:
  "match_here badge_name s = Some (g1, g2, g3, rest) \<Longrightarrow>
     re_sub badge_name formatted_size s =
       g1 @ formatted_size @ g3 @ re_sub badge_name formatted_size rest"
  by (subst re_sub.simps) simp

lemma re_sub_Nil: "re_sub badge_name formatted_size [] = []"
  by (subst re_sub.simps) (simp add: match_here_Nil)

lemma re_sub_skip:
  "match_here badge_name (c # cs) = None \<Longrightarrow>
     re_sub badge_name formatted_size (c # cs) = c # re_sub badge_name formatted_size cs"
  by (subst re_sub.simps) simp

lemma scan_match:
  "match_here badge_name s = Some (g1, g2, g3, rest) \<Longrightarrow>
     scan badge_name s = Badge g1 g2 g3 # scan badge_name rest"
  by (subst scan.simps) simp

lemma scan_Nil: "scan badge_name [] = []"
  by (subst scan.simps) (simp add: match_here_Nil)

lemma scan_skip:
  "match_here badge_name (c # cs) = None \<Longrightarrow>
     scan badge_name (c # cs) = Kept c # scan badge_name cs"
  by (subst scan.simps) simp

text \<open>Induction along the scan of \<^verbatim>\<open>re.sub\<close>.\<close>

lemma scan_induct [case_names Nil skip match]:
  assumes "P []"
    and "\<And>c cs. match_here badge_name (c # cs) = None \<Longrightarrow> P cs \<Longrightarrow> P (c # cs)"
    and "\<And>s g1 g2 g3 rest. match_here badge_name s = Some (g1, g2, g3, rest) \<Longrightarrow> P rest \<Longrightarrow> P s"
  shows "P s"
proof (induction s rule: length_induct)
  case (1 s)
  show ?case
  proof (cases "match_here badge_name s")
    case None
    show ?thesis
    proof (cases s)
      case Nil
      with assms(1) show ?thesis by simp
    next
      case (Cons c cs)
      with None 1 assms(2) show ?thesis by simp
    qed
  next
    case (Some p)
    obtain g1 g2 g3 rest where p: "p = (g1, g2, g3, rest)" by (cases p) auto
    from Some p match_here_length have "length rest < length s" by blast
    with 1 have "P rest" by blast
    with Some p assms(3) show ?thesis by blast
  qed
qed

lemma re_sub_scan:
  "re_sub badge_name formatted_size s =
     concat (map (rewritten formatted_size) (scan badge_name s))"
proof (induction s rule: scan_induct [where badge_name = badge_name])
  case Nil
  show ?case by (simp add: re_sub_Nil scan_Nil)
next
  case (skip c cs)
  then show ?case by (simp add: re_sub_skip scan_skip)
next
  case (match s g1 g2 g3 rest)
  then show ?case by (simp add: re_sub_match scan_match)
qed

lemma original_scan: "concat (map original (scan badge_name s)) = s"
proof (induction s rule: scan_induct [where badge_name = badge_name])
  case Nil
  show ?case by (simp add: scan_Nil)
next
  case (skip c cs)
  then show ?case by (simp add: scan_skip)
next
  case (match s g1 g2 g3 rest)
  from match_here_Some [OF match.hyps] have "s = g1 @ g2 @ g3 @ rest" by simp
  with match show ?case by (simp add: scan_match)
qed

lemma re_sub_no_match:
  "\<not> has_match badge_name s \<Longrightarrow> re_sub badge_name formatted_size s = s"
proof (induction s)
  case Nil
  show ?case by (simp add: re_sub_Nil)
next
  case (Cons c cs)
  from Cons.prems have "match_here badge_name (c # cs) = None"
    by (cases "match_here badge_name (c # cs)") simp_all
  moreover from Cons.prems have "\<not> has_match badge_name cs"
    by simp
  ultimately show ?case using Cons.IH by (simp add: re_sub_skip)
qed

lemma scan_well_formed: "list_all (well_formed badge_name) (scan badge_name s)"
proof (induction s rule: scan_induct [where badge_name = badge_name])
  case Nil
  show ?case by (simp add: scan_Nil)
next
  case (skip c cs)
  then show ?case by (simp add: scan_skip)
next
  case (match s g1 g2 g3 rest)
  from match_here_Some [OF match.hyps] have "well_formed badge_name (Badge g1 g2 g3)"
    by simp
  with match.IH show ?case
    by (simp only: scan_match [OF match.hyps] list.pred_inject)
qed

section \<open>The two matchers on a plain badge name\<close>

lemma parse_items_plain:
  "list_all (\<lambda>c. \<not> regex_special c) s \<Longrightarrow>
     parse_items s = Some (map (\<lambda>c. (Once, [atom_of c])) s)"
proof (induction s)
  case Nil
  show ?case by (simp add: parse_items.simps)
next
  case (Cons c cs)
  from Cons.prems have c: "\<not> regex_special c" and cs: "list_all (\<lambda>c. \<not> regex_special c) cs"
    by simp_all
  from c have u: "parse_unit (c # cs) = Some ([atom_of c], cs)"
    by (auto simp: regex_special_def)
  from cs have r: "parse_repeat cs = (Once, cs)"
    by (cases cs) (auto simp: regex_special_def)
  show ?case
    by (subst parse_items.simps) (simp add: u r Cons.IH [OF cs] del: parse_unit.simps atom_of.simps)
qed

lemma max_reps_single:
  "Suc 0 \<le> max_reps [a] s \<longleftrightarrow> (case s of [] \<Rightarrow> False | c # cs \<Rightarrow> atom_ok a c)"
  by (subst max_reps.simps) (auto split: list.splits)

lemma prefix_lengths_plain:
  "prefix_lengths (map (\<lambda>a. (Once, [a])) as) s =
     (case match_atoms as s of None \<Rightarrow> [] | Some (m, rest) \<Rightarrow> [length as])"
proof (induction as arbitrary: s)
  case Nil
  show ?case by simp
next
  case (Cons a as)
  show ?case
    by (cases s) (simp_all add: max_reps_single Cons.IH split: option.splits)
qed

lemma match_items_plain:
  "match_items (map (\<lambda>a. (Once, [a])) (group1 badge_name)) s = match_here badge_name s"
proof (cases "match_atoms (group1 badge_name) s")
  case None
  then show ?thesis
    by (simp add: match_items_def prefix_lengths_plain match_here_def)
next
  case (Some p)
  obtain m rest where p: "p = (m, rest)" by (cases p)
  from Some p have "s = m @ rest" "length m = length (group1 badge_name)"
    by (auto simp: match_atoms_iff dest: list_all2_lengthD)
  with Some p show ?thesis
    by (simp add: match_items_def prefix_lengths_plain match_here_def split: option.splits)
qed

lemma re_sub_items_plain:
  "re_sub_items (map (\<lambda>a. (Once, [a])) (group1 badge_name)) f s = re_sub badge_name f s"
proof (induction s rule: scan_induct [where badge_name = badge_name])
  case Nil
  then show ?case
    by (subst re_sub_items.simps) (simp add: match_items_plain re_sub_Nil match_here_Nil)
next
  case (skip c cs)
  then show ?case
    by (subst re_sub_items.simps) (simp add: match_items_plain re_sub_skip)
next
  case (match s g1 g2 g3 rest)
  then show ?case
    by (subst re_sub_items.simps) (simp add: match_items_plain re_sub_match)
qed

lemma parse_items_group1:
  assumes "plain_name badge_name"
  shows "parse_items (badge_url @ badge_name @ ''-'') =
     Some (map (\<lambda>a. (Once, [a])) (group1 badge_name))"
proof -
  have "list_all (\<lambda>c. \<not> regex_special c) badge_url"
    by (simp add: badge_url_def regex_special_def)
  with assms have "list_all (\<lambda>c. \<not> regex_special c) (badge_url @ badge_name @ ''-'')"
    by (simp add: plain_name_def regex_special_def)
  from parse_items_plain [OF this] show ?thesis
    by (simp add: group1_def comp_def del: atom_of.simps)
qed

text \<open>
  For a plain badge name \<^verbatim>\<open>update_badge\<close> is the substitution over atoms of the section
  before.
\<close>

lemma update_badge_plain:
  assumes "plain_name badge_name"
  shows "update_badge content badge_name size_in_bytes =
     (case format_size size_in_bytes of
        Inl err \<Rightarrow> Inl err
      | Inr formatted_size \<Rightarrow> Inr (re_sub badge_name formatted_size content))"
  by (simp add: update_badge_def parse_items_group1 [OF assms] re_sub_items_plain
      split: sum.splits)

lemma update_badge_eval:
  "update_badge content badge_name size_in_bytes =
     (case format_size size_in_bytes of
        Inl err \<Rightarrow> Inl err
      | Inr formatted_size \<Rightarrow>
          if plain_name badge_name then Inr (re_sub badge_name formatted_size content)
          else (case parse_items (badge_url @ badge_name @ ''-'') of
                  None \<Rightarrow> Inl Unmodelled
                | Some its \<Rightarrow> Inr (re_sub_items its formatted_size content)))"
proof (cases "plain_name badge_name")
  case True
  then show ?thesis
    by (simp add: update_badge_plain split: sum.splits)
next
  case False
  then show ?thesis
    by (simp add: update_badge_def split: sum.splits)
qed

lemma plain_binary_size: "plain_name ''binary_size''"
  by (simp add: plain_name_def regex_special_def)

lemma plain_wasm_size: "plain_name ''wasm_size''"
  by (simp add: plain_name_def regex_special_def)

lemmas update_badge_script =
  update_badge_plain [OF plain_binary_size] update_badge_plain [OF plain_wasm_size]

section \<open>Lines, and substituting twice\<close>

lemma first_line_Nil [simp]: "first_line [] = []"
  by (simp add: first_line_def)

lemma first_line_Cons:
  "first_line (c # cs) = (if c = newline then [] else c # first_line cs)"
  by (simp add: first_line_def)

lemma first_line_append_newline:
  "newline \<in> set a \<Longrightarrow> first_line (a @ v) = first_line a"
  by (simp add: first_line_def)

lemma first_line_append:
  "newline \<notin> set a \<Longrightarrow> first_line (a @ v) = a @ first_line v"
  by (induction a) (auto simp: first_line_def)

lemma prefix_first_line:
  "prefix p s \<Longrightarrow> newline \<notin> set p \<Longrightarrow> prefix p (first_line s)"
  by (auto simp: prefix_def first_line_append)

lemma blue_no_newline: "newline \<notin> set ''-blue''"
  by (simp add: newline_def)

lemma group3_None_iff: "match_atoms group3 s = None \<longleftrightarrow> \<not> prefix ''-blue'' s"
proof (cases "match_atoms group3 s")
  case None
  have "\<not> prefix ''-blue'' s"
  proof
    assume "prefix ''-blue'' s"
    then obtain rest where "s = ''-blue'' @ rest" by (auto simp: prefix_def)
    then have "match_atoms group3 s = Some (''-blue'', rest)"
      by (simp only: match_atoms_group3)
    with None show False by simp
  qed
  with None show ?thesis by simp
next
  case (Some p)
  obtain g3 rest where "p = (g3, rest)" by (cases p)
  with Some have "s = ''-blue'' @ rest" by (simp add: match_atoms_group3)
  then have "prefix ''-blue'' s" by (simp only: prefixI)
  with Some show ?thesis by simp
qed

lemma lazy_mid_None_iff:
  "lazy_mid s = None \<longleftrightarrow> \<not> sublist ''-blue'' (first_line s)"
proof (induction s)
  case Nil
  show ?case
    by (subst lazy_mid.simps) (simp add: group3_def)
next
  case (Cons c cs)
  show ?case
  proof (cases "prefix ''-blue'' (c # cs)")
    case True
    then have "match_atoms group3 (c # cs) \<noteq> None"
      by (simp only: group3_None_iff) simp
    then have "lazy_mid (c # cs) \<noteq> None"
      by (subst lazy_mid.simps) (auto split: option.splits)
    moreover from True have "sublist ''-blue'' (first_line (c # cs))"
      using prefix_first_line [OF True blue_no_newline] by (rule_tac prefix_imp_sublist)
    ultimately show ?thesis by simp
  next
    case False
    then have none: "match_atoms group3 (c # cs) = None"
      by (simp only: group3_None_iff) simp
    show ?thesis
    proof (cases "c = newline")
      case True
      with none show ?thesis
        by (subst lazy_mid.simps) (simp add: first_line_Cons)
    next
      case nl: False
      have "\<not> prefix ''-blue'' (c # first_line cs)"
      proof
        assume "prefix ''-blue'' (c # first_line cs)"
        moreover have "prefix (c # first_line cs) (c # cs)"
          by (simp add: first_line_def takeWhile_is_prefix)
        ultimately have "prefix ''-blue'' (c # cs)" by (rule prefix_order.trans)
        with False show False by simp
      qed
      then have "sublist ''-blue'' (first_line (c # cs)) \<longleftrightarrow> sublist ''-blue'' (first_line cs)"
        using nl by (auto simp add: first_line_Cons sublist_Cons_right)
      moreover have "lazy_mid (c # cs) = None \<longleftrightarrow> lazy_mid cs = None"
        using none nl by (subst lazy_mid.simps) (auto split: option.splits)
      ultimately show ?thesis using Cons.IH by simp
    qed
  qed
qed

lemma match_atoms_take_drop:
  "match_atoms as s = Some (m, rest) \<longleftrightarrow>
     length as \<le> length s \<and> m = take (length as) s \<and> rest = drop (length as) s \<and>
     list_all2 atom_ok as (take (length as) s)"
proof
  assume "match_atoms as s = Some (m, rest)"
  then have *: "s = m @ rest" "list_all2 atom_ok as m" by (simp_all add: match_atoms_iff)
  then have "length m = length as" by (simp add: list_all2_lengthD)
  with * show "length as \<le> length s \<and> m = take (length as) s \<and> rest = drop (length as) s \<and>
     list_all2 atom_ok as (take (length as) s)" by simp
next
  assume "length as \<le> length s \<and> m = take (length as) s \<and> rest = drop (length as) s \<and>
     list_all2 atom_ok as (take (length as) s)"
  then show "match_atoms as s = Some (m, rest)" by (simp add: match_atoms_iff)
qed

lemma match_here_None_iff:
  "match_here badge_name s = None \<longleftrightarrow>
     \<not> (length (group1 badge_name) \<le> length s \<and>
        list_all2 atom_ok (group1 badge_name) (take (length (group1 badge_name)) s) \<and>
        sublist ''-blue'' (first_line (drop (length (group1 badge_name)) s)))"
proof (cases "match_atoms (group1 badge_name) s")
  case None
  then have "\<not> (length (group1 badge_name) \<le> length s \<and>
        list_all2 atom_ok (group1 badge_name) (take (length (group1 badge_name)) s))"
    using match_atoms_take_drop [of "group1 badge_name" s] by auto
  with None show ?thesis by (auto simp: match_here_def)
next
  case (Some p)
  obtain m rest where p: "p = (m, rest)" by (cases p)
  with Some have *: "length (group1 badge_name) \<le> length s"
    "rest = drop (length (group1 badge_name)) s"
    "list_all2 atom_ok (group1 badge_name) (take (length (group1 badge_name)) s)"
    by (simp_all add: match_atoms_take_drop)
  have "match_here badge_name s = None \<longleftrightarrow> lazy_mid rest = None"
    using Some p by (auto simp: match_here_def split: option.splits)
  with * show ?thesis by (simp add: lazy_mid_None_iff)
qed


lemma match_here_group1_length:
  "match_here badge_name s = Some (g1, g2, g3, rest) \<Longrightarrow>
     length g1 = length (group1 badge_name)"
  by (auto dest!: match_here_Some list_all2_lengthD)

lemma re_sub_take:
  "k \<le> length (group1 badge_name) \<Longrightarrow>
     take k (re_sub badge_name f s) = take k s"
proof (induction s arbitrary: k rule: scan_induct [where badge_name = badge_name])
  case Nil
  show ?case by (simp add: re_sub_Nil)
next
  case (skip c cs)
  show ?case
  proof (cases k)
    case 0
    then show ?thesis by simp
  next
    case (Suc k')
    with skip.prems have "k' \<le> length (group1 badge_name)" by simp
    from skip.IH [OF this] Suc show ?thesis
      unfolding re_sub_skip [OF skip.hyps] by simp
  qed
next
  case (match s g1 g2 g3 rest)
  from match_here_Some [OF match.hyps] have s: "s = g1 @ g2 @ g3 @ rest" by simp
  from match_here_group1_length [OF match.hyps] match.prems have "k \<le> length g1" by simp
  then have "take k (g1 @ f @ g3 @ re_sub badge_name f rest) = take k (g1 @ g2 @ g3 @ rest)"
    by simp
  then show ?case
    unfolding re_sub_match [OF match.hyps] by (subst s)
qed

lemma re_sub_first_line:
  "k \<le> length (group1 badge_name) \<Longrightarrow>
   \<not> sublist ''-blue'' (first_line (drop k s)) \<Longrightarrow>
     first_line (drop k (re_sub badge_name f s)) = first_line (drop k s)"
proof (induction s arbitrary: k rule: scan_induct [where badge_name = badge_name])
  case Nil
  show ?case by (simp add: re_sub_Nil)
next
  case (skip c cs)
  show ?case
  proof (cases k)
    case 0
    show ?thesis
    proof (cases "c = newline")
      case True
      show ?thesis
        unfolding re_sub_skip [OF skip.hyps] using 0 True by (simp add: first_line_Cons)
    next
      case False
      with 0 skip.prems have "\<not> sublist ''-blue'' (first_line (drop 0 cs))"
        by (simp add: first_line_Cons sublist_Cons_right)
      from skip.IH [OF _ this] have "first_line (re_sub badge_name f cs) = first_line cs"
        by simp
      with 0 False show ?thesis
        unfolding re_sub_skip [OF skip.hyps] by (simp add: first_line_Cons)
    qed
  next
    case (Suc k')
    with skip.prems have "k' \<le> length (group1 badge_name)"
      "\<not> sublist ''-blue'' (first_line (drop k' cs))" by simp_all
    from skip.IH [OF this] Suc show ?thesis
      unfolding re_sub_skip [OF skip.hyps] by simp
  qed
next
  case (match s g1 g2 g3 rest)
  from match_here_Some [OF match.hyps]
  have s: "s = g1 @ g2 @ g3 @ rest" and g3: "g3 = ''-blue''" and g2: "newline \<notin> set g2"
    by simp_all
  from match_here_group1_length [OF match.hyps] match.prems have k: "k \<le> length g1" by simp
  have nl: "newline \<in> set (drop k g1)"
  proof (rule ccontr)
    assume "newline \<notin> set (drop k g1)"
    with g2 have "newline \<notin> set (drop k g1 @ g2)" by simp
    then have "first_line ((drop k g1 @ g2) @ g3 @ rest) = (drop k g1 @ g2) @ first_line (g3 @ rest)"
      by (rule first_line_append)
    moreover have "first_line (g3 @ rest) = g3 @ first_line rest"
      unfolding g3 using blue_no_newline by (rule first_line_append)
    ultimately have "first_line (drop k s) = (drop k g1 @ g2) @ ''-blue'' @ first_line rest"
      using k by (simp add: s g3)
    then have "sublist ''-blue'' (first_line (drop k s))"
      by (simp only: sublist_appendI)
    with match.prems show False by simp
  qed
  have "first_line (drop k g1 @ v) = first_line (drop k g1)" for v
    using nl by (rule first_line_append_newline)
  from this [of "g2 @ g3 @ rest"]
    this [of "f @ g3 @ re_sub badge_name f rest"] k
  have "first_line (drop k (g1 @ f @ g3 @ re_sub badge_name f rest)) =
          first_line (drop k (g1 @ g2 @ g3 @ rest))"
    by simp
  then show ?case
    unfolding re_sub_match [OF match.hyps] by (subst s)
qed

lemma match_here_skip_re_sub:
  assumes "match_here badge_name (c # cs) = None"
  shows "match_here badge_name (c # re_sub badge_name f cs) = None"
proof -
  let ?L = "length (group1 badge_name)"
  let ?R = "re_sub badge_name f cs"
  from group1_nonempty obtain l where L: "?L = Suc l" by (cases "group1 badge_name") auto
  have take_eq: "take ?L (c # ?R) = take ?L (c # cs)"
    using re_sub_take [of l badge_name f cs] L by simp
  show ?thesis
  proof (rule ccontr)
    assume "match_here badge_name (c # ?R) \<noteq> None"
    then have 1: "list_all2 atom_ok (group1 badge_name) (take ?L (c # ?R))"
      and 2: "sublist ''-blue'' (first_line (drop ?L (c # ?R)))"
      by (simp_all add: match_here_None_iff)
    from 1 take_eq have 3: "list_all2 atom_ok (group1 badge_name) (take ?L (c # cs))"
      by simp
    from list_all2_lengthD [OF 3] have 4: "?L \<le> length (c # cs)"
      by simp
    from assms 3 4 have "\<not> sublist ''-blue'' (first_line (drop ?L (c # cs)))"
      by (simp add: match_here_None_iff)
    then have 5: "\<not> sublist ''-blue'' (first_line (drop l cs))"
      using L by simp
    have "first_line (drop l ?R) = first_line (drop l cs)"
      using re_sub_first_line [OF _ 5] L by simp
    with 2 5 L show False by simp
  qed
qed

lemma lazy_mid_size:
  "size_text f \<Longrightarrow> lazy_mid (f @ ''-blue'' @ r) = Some (f, ''-blue'', r)"
proof (induction f)
  case Nil
  have "match_atoms group3 (''-blue'' @ r) = Some (''-blue'', r)"
    by (simp only: match_atoms_group3)
  then show ?case by (subst lazy_mid.simps) simp
next
  case (Cons x f)
  from Cons.prems have f: "size_text f"
    by (auto simp: size_text_def split: if_splits)
  have "\<not> prefix ''-blue'' ((x # f) @ ''-blue'' @ r)"
    using Cons.prems by (cases f) (auto simp: size_text_def)
  then have "match_atoms group3 ((x # f) @ ''-blue'' @ r) = None"
    by (simp add: group3_None_iff)
  moreover from Cons.prems have "x \<noteq> newline" by (auto simp: size_text_def)
  ultimately show ?case
    using Cons.IH [OF f] by (subst lazy_mid.simps) simp
qed

lemma match_here_rewritten:
  assumes "match_here badge_name s = Some (g1, g2, g3, rest)" and "size_text f"
  shows "match_here badge_name (g1 @ f @ g3 @ r) = Some (g1, f, g3, r)"
proof -
  from match_here_Some [OF assms(1)]
  have g1: "list_all2 atom_ok (group1 badge_name) g1" and g3: "g3 = ''-blue''" by simp_all
  from g1 have "match_atoms (group1 badge_name) (g1 @ f @ g3 @ r) = Some (g1, f @ g3 @ r)"
    by (simp add: match_atoms_iff)
  moreover have "lazy_mid (f @ g3 @ r) = Some (f, g3, r)"
    unfolding g3 using assms(2) by (rule lazy_mid_size)
  ultimately show ?thesis by (simp add: match_here_def)
qed

lemma re_sub_idempotent:
  "size_text f \<Longrightarrow> re_sub badge_name f (re_sub badge_name f s) = re_sub badge_name f s"
proof (induction s rule: scan_induct [where badge_name = badge_name])
  case Nil
  show ?case by (simp add: re_sub_Nil)
next
  case (skip c cs)
  from match_here_skip_re_sub [OF skip.hyps]
  have "re_sub badge_name f (c # re_sub badge_name f cs) =
          c # re_sub badge_name f (re_sub badge_name f cs)"
    by (rule re_sub_skip)
  with skip.IH [OF skip.prems] show ?case
    unfolding re_sub_skip [OF skip.hyps] by simp
next
  case (match s g1 g2 g3 rest)
  from match_here_rewritten [OF match.hyps match.prems]
  have "re_sub badge_name f (g1 @ f @ g3 @ re_sub badge_name f rest) =
          g1 @ f @ g3 @ re_sub badge_name f (re_sub badge_name f rest)"
    by (rule re_sub_match)
  with match.IH [OF match.prems] show ?case
    unfolding re_sub_match [OF match.hyps] by simp
qed

lemma list_all_rstrip: "list_all P s \<Longrightarrow> list_all P (rstrip c s)"
  by (auto simp: rstrip_def list_all_iff dest: set_dropWhileD)

lemma digit_char_size_char: "k < 10 \<Longrightarrow> size_char (digit_char k)"
proof -
  assume "k < 10"
  then have "digit_char k \<in> set ''0123456789''"
    unfolding digit_char_def by (intro nth_mem) simp
  then show ?thesis
    unfolding size_char_def newline_def by (elim disjE | simp)+
qed

lemma list_all_dec: "list_all size_char (dec n)"
proof (induction n rule: dec.induct)
  case (1 n)
  show ?case
  proof (cases "n < 10")
    case True
    with digit_char_size_char [of n] show ?thesis
      by (subst dec.simps) simp
  next
    case False
    have "n mod 10 < 10" by simp
    from digit_char_size_char [OF this] 1 [OF False] False show ?thesis
      by (subst dec.simps) simp
  qed
qed

lemma list_all_format_2f: "list_all size_char (format_2f x)"
proof -
  have "hundredths x mod 100 div 10 < 10" "hundredths x mod 10 < 10"
    by simp_all
  from digit_char_size_char [OF this(1)] digit_char_size_char [OF this(2)]
    list_all_dec [of "hundredths x div 100"]
  show ?thesis
    by (simp add: format_2f_def Let_def size_char_def newline_def)
qed


lemma size_text_unit:
  assumes "u = '' KB'' \<or> u = '' MB''"
  shows "size_text (rstrip (CHR ''.'') (rstrip (CHR ''0'') (format_2f x)) @ u)"
proof -
  let ?num = "rstrip (CHR ''.'') (rstrip (CHR ''0'') (format_2f x))"
  have "list_all size_char ?num"
    by (intro list_all_rstrip list_all_format_2f)
  then have num: "CHR ''b'' \<notin> set ?num" "newline \<notin> set ?num"
    by (auto simp: list_all_iff size_char_def)
  from assms have u: "CHR ''b'' \<notin> set u" "newline \<notin> set u" "u \<noteq> []" "last u \<noteq> CHR ''-''"
    by (auto simp: newline_def)
  from num u show ?thesis
    by (simp add: size_text_def)
qed

lemma format_size_cases:
  assumes "format_size v = Inr f"
  shows "\<exists>x u. f = rstrip (CHR ''.'') (rstrip (CHR ''0'') (format_2f x)) @ u \<and>
           (u = '' KB'' \<or> u = '' MB'')"
proof -
  from assms obtain n where n: "py_int v = Inr n"
    by (cases "py_int v") (simp_all add: format_size_def)
  show ?thesis
  proof (cases "n < 1000 * 1000")
    case True
    with assms n obtain x where "int_true_div n 1000 = Inr x"
      by (cases "int_true_div n 1000") (simp_all add: format_size_def)
    with assms n True have "f = rstrip (CHR ''.'') (rstrip (CHR ''0'') (format_2f x)) @ '' KB''"
      by (simp add: format_size_def)
    then show ?thesis by blast
  next
    case False
    with assms n obtain x where "int_true_div n (1000 * 1000) = Inr x"
      by (cases "int_true_div n (1000 * 1000)") (simp_all add: format_size_def)
    with assms n False have "f = rstrip (CHR ''.'') (rstrip (CHR ''0'') (format_2f x)) @ '' MB''"
      by (simp add: format_size_def)
    then show ?thesis by blast
  qed
qed

lemma format_size_text: "format_size v = Inr f \<Longrightarrow> size_text f"
  using format_size_cases size_text_unit by blast

section \<open>A line feed inside the candidate\<close>










section \<open>Rounding and the range of the formatter\<close>

lemma bit_length_Suc_0: "bit_length (Suc 0) = Suc 0"
  by (simp add: bit_length.simps [of "Suc 0"] bit_length.simps [of 0])

lemma bit_length_bounds:
  "0 < n \<Longrightarrow> 2 ^ bit_length n \<le> 2 * n \<and> n < 2 ^ bit_length n"
proof (induction n rule: bit_length.induct)
  case (1 n)
  show ?case
  proof (cases "n div 2 = 0")
    case True
    with 1(2) have "n = 1" by (simp add: div_eq_0_iff)
    then show ?thesis by (simp add: bit_length_Suc_0)
  next
    case False
    with 1 have IH: "2 ^ bit_length (n div 2) \<le> 2 * (n div 2)" "n div 2 < 2 ^ bit_length (n div 2)"
      by simp_all
    have bl: "bit_length n = Suc (bit_length (n div 2))"
      using 1(2) by (subst bit_length.simps) simp
    from IH show ?thesis unfolding bl by simp linarith
  qed
qed

lemma bit_length_diff:
  assumes "0 < n" "0 < d" "n < d * 2 ^ j"
  shows "int (bit_length n) - int (bit_length d) \<le> int j"
proof -
  from bit_length_bounds [OF assms(1)] have "2 ^ bit_length n \<le> 2 * n" by simp
  also from assms(3) have "\<dots> < 2 * (d * 2 ^ j)" by simp
  also from bit_length_bounds [OF assms(2)] have "\<dots> < 2 * (2 ^ bit_length d * 2 ^ j)"
    by simp
  also have "\<dots> = 2 ^ (bit_length d + j + 1)" by (simp add: power_add)
  finally have "(2::nat) ^ bit_length n < 2 ^ (bit_length d + j + 1)" .
  then have "bit_length n < bit_length d + j + 1"
    by (rule power_less_imp_less_exp [rotated]) simp
  then show ?thesis by simp
qed

lemma quotient_exponent_le:
  assumes "0 < n" "0 < d" "n < d * 2 ^ j"
  shows "quotient_exponent n d \<le> max (int j - 53) (- 1074)"
proof -
  let ?diff = "int (bit_length n) - int (bit_length d)"
  from bit_length_diff [OF assms] have diff: "?diff \<le> int j" .
  show ?thesis
  proof (cases "?diff = int j")
    case True
    then have "nat ?diff = j" by simp
    with assms(3) True have "\<not> d * 2 ^ nat ?diff \<le> n" by simp
    with True show ?thesis
      by (simp add: quotient_exponent_def Let_def)
  next
    case False
    with diff have "?diff - 52 \<le> int j - 53" by simp
    then show ?thesis
      by (auto simp: quotient_exponent_def Let_def)
  qed
qed

lemma round_half_even_bounds:
  assumes "0 < den"
  shows "2 * (round_half_even num den * den) \<le> 2 * num + den"
    and "2 * num \<le> 2 * (round_half_even num den * den) + den"
proof -
  define q r m where "q = num div den" and "r = num mod den"
    and "m = round_half_even num den"
  have num: "num = q * den + r" by (simp add: q_def r_def)
  have r: "r < den" using assms by (simp add: r_def)
  have m: "m = (if 2 * r < den then q else if den < 2 * r then q + 1
      else if even q then q else q + 1)"
    by (simp add: m_def round_half_even_def q_def r_def Let_def)
  have "2 * (m * den) \<le> 2 * num + den"
    using m num r by (auto split: if_splits simp: algebra_simps)
  then show "2 * (round_half_even num den * den) \<le> 2 * num + den"
    by (simp only: m_def)
  have "2 * num \<le> 2 * (m * den) + den"
    using m num r by (auto split: if_splits simp: algebra_simps)
  then show "2 * num \<le> 2 * (round_half_even num den * den) + den"
    by (simp only: m_def)
qed


lemma scaled_round_971:
  assumes "0 < d" "n < d * (2 ^ 1024 - 2 ^ 970)"
  shows "scaled_round n d 971 < 2 ^ 53"
proof -
  define D u where "D = d * 2 ^ 971" and "u = d * 2 ^ 970"
  have D: "0 < D" using assms(1) by (simp add: D_def)
  have "(2::nat) ^ 1024 = 2 ^ 970 * 2 ^ 54" "(2::nat) ^ 971 = 2 ^ 970 * 2"
    by (simp_all only: power_add [symmetric]) simp_all
  then have T: "d * (2 ^ 1024 - 2 ^ 970) = u * (2 ^ 54 - 1)" and D2: "D = 2 * u"
    by (simp_all only: D_def u_def) (simp_all only: algebra_simps)
  from assms(2) have "n < u * (2 ^ 54 - 1)" by (simp only: T)
  then have "2 * n + 2 * u < 2 * u * 2 ^ 54" by simp
  then have lt: "2 * n + D < D * 2 ^ 54" by (simp only: D2)
  define m where "m = round_half_even n D"
  from round_half_even_bounds(1) [OF D, of n] have "2 * (m * D) \<le> 2 * n + D"
    by (simp only: m_def)
  from this lt have "2 * (m * D) < D * 2 ^ 54" by (rule le_less_trans)
  then have "m * D < 2 ^ 53 * D" by simp
  then have "m < 2 ^ 53" by (simp only: mult_less_cancel2)
  then show ?thesis by (simp add: scaled_round_def m_def D_def)
qed

lemma int_true_div_finite:
  assumes "b \<noteq> 0" and "nat \<bar>a\<bar> < nat \<bar>b\<bar> * (2 ^ 1024 - 2 ^ 970)"
  shows "int_true_div a b =
     Inr (if a = 0 then PyFloat ((a < 0) \<noteq> (b < 0)) 0 0
          else PyFloat ((a < 0) \<noteq> (b < 0))
                 (scaled_round (nat \<bar>a\<bar>) (nat \<bar>b\<bar>) (quotient_exponent (nat \<bar>a\<bar>) (nat \<bar>b\<bar>)))
                 (quotient_exponent (nat \<bar>a\<bar>) (nat \<bar>b\<bar>)))"
proof (cases "a = 0")
  case True
  with assms(1) show ?thesis by (simp add: int_true_div_def)
next
  case False
  define n d where "n = nat \<bar>a\<bar>" and "d = nat \<bar>b\<bar>"
  from False assms(1) have pos: "0 < n" "0 < d" by (simp_all add: n_def d_def)
  from assms(2) have lt: "n < d * (2 ^ 1024 - 2 ^ 970)" by (simp only: n_def d_def)
  have "d * (2 ^ 1024 - 2 ^ 970) \<le> d * 2 ^ 1024"
    by (rule mult_le_mono2) (rule diff_le_self)
  with lt have "n < d * 2 ^ 1024" by (rule less_le_trans)
  from quotient_exponent_le [OF pos this] have e: "quotient_exponent n d \<le> 971"
    by simp
  have "\<not> (971 < quotient_exponent n d \<or>
      (quotient_exponent n d = 971 \<and> 2 ^ 53 \<le> scaled_round n d (quotient_exponent n d)))"
  proof (cases "quotient_exponent n d = 971")
    case True
    from scaled_round_971 [OF pos(2) lt] True show ?thesis by simp
  next
    case False
    with e show ?thesis by simp
  qed
  with False assms(1) pos show ?thesis
    by (simp add: int_true_div_def Let_def n_def [symmetric] d_def [symmetric])
qed

lemma two_decimals_accurate:
  fixes n m h P c :: nat
  assumes m1: "2 * (m * (200 * c)) \<le> 2 * (n * P) + 200 * c"
    and m2: "2 * (n * P) \<le> 2 * (m * (200 * c)) + 200 * c"
    and h1: "2 * (h * P) \<le> 2 * (m * 100) + P"
    and h2: "2 * (m * 100) \<le> 2 * (h * P) + P"
    and P: "100 * c < P"
  shows "2 * c * h \<le> n + c" and "n \<le> 2 * c * h + c"
proof -
  from h1 have "c * (2 * (h * P)) \<le> c * (2 * (m * 100) + P)" by (rule mult_le_mono2)
  then have a: "2 * (c * h * P) \<le> 200 * (c * m) + c * P" by (simp add: algebra_simps)
  from h2 have "c * (2 * (m * 100)) \<le> c * (2 * (h * P) + P)" by (rule mult_le_mono2)
  then have b: "200 * (c * m) \<le> 2 * (c * h * P) + c * P" by (simp add: algebra_simps)
  from m1 have c1: "400 * (c * m) \<le> 2 * (n * P) + 200 * c" by (simp add: algebra_simps)
  from m2 have c2: "2 * (n * P) \<le> 400 * (c * m) + 200 * c" by (simp add: algebra_simps)
  show "2 * c * h \<le> n + c"
  proof (rule ccontr)
    assume "\<not> 2 * c * h \<le> n + c"
    then have "n + c + 1 \<le> 2 * c * h" by simp
    then have "(n + c + 1) * P \<le> (2 * c * h) * P" by (rule mult_le_mono1)
    then have "n * P + c * P + P \<le> 2 * (c * h * P)" by (simp add: algebra_simps)
    with a c1 P show False by linarith
  qed
  show "n \<le> 2 * c * h + c"
  proof (rule ccontr)
    assume "\<not> n \<le> 2 * c * h + c"
    then have "2 * c * h + c + 1 \<le> n" by simp
    then have "(2 * c * h + c + 1) * P \<le> n * P" by (rule mult_le_mono1)
    then have "2 * (c * h * P) + c * P + P \<le> n * P" by (simp add: algebra_simps)
    with b c2 P show False by linarith
  qed
qed


lemma hundredths_accurate:
  assumes "0 < n" "0 < c" "n < 200 * c * 2 ^ j" "j \<le> 52" "100 * c < 2 ^ (53 - j)"
  shows "2 * c * hundredths (PyFloat neg (scaled_round n (200 * c) (quotient_exponent n (200 * c)))
           (quotient_exponent n (200 * c))) \<le> n + c"
    and "n \<le> 2 * c * hundredths (PyFloat neg (scaled_round n (200 * c) (quotient_exponent n (200 * c)))
           (quotient_exponent n (200 * c))) + c"
proof -
  define d e where "d = 200 * c" and "e = quotient_exponent n (200 * c)"
  define k where "k = nat (- e)"
  define P :: nat where "P = 2 ^ k"
  define m where "m = scaled_round n d e"
  define h where "h = hundredths (PyFloat neg m e)"
  have d: "0 < d" using assms(2) by (simp add: d_def)
  from quotient_exponent_le [OF assms(1) d, of j] assms(3,4)
  have e: "e \<le> int j - 53" by (simp add: d_def e_def)
  with assms(4) have neg: "e < 0" and k: "53 - j \<le> k" by (simp_all add: k_def)
  from k have "(2::nat) ^ (53 - j) \<le> 2 ^ k" by (rule power_increasing) simp
  with assms(5) have P: "100 * c < P" unfolding P_def by (rule less_le_trans)
  have m: "m = round_half_even (n * P) d"
    using neg by (simp add: m_def scaled_round_def P_def k_def)
  have h: "h = round_half_even (m * 100) P"
    using neg by (simp add: h_def hundredths_def scaled_round_def P_def k_def)
  have P0: "0 < P" by (simp add: P_def)
  from round_half_even_bounds [OF d, of "n * P"]
  have m1: "2 * (m * (200 * c)) \<le> 2 * (n * P) + 200 * c"
    and m2: "2 * (n * P) \<le> 2 * (m * (200 * c)) + 200 * c"
    by (simp_all only: m d_def)
  from round_half_even_bounds [OF P0, of "m * 100"]
  have h1: "2 * (h * P) \<le> 2 * (m * 100) + P" and h2: "2 * (m * 100) \<le> 2 * (h * P) + P"
    by (simp_all only: h)
  from two_decimals_accurate [OF m1 m2 h1 h2 P]
  have "2 * c * h \<le> n + c" "n \<le> 2 * c * h + c" .
  then show "2 * c * hundredths (PyFloat neg (scaled_round n (200 * c) (quotient_exponent n (200 * c)))
           (quotient_exponent n (200 * c))) \<le> n + c"
    and "n \<le> 2 * c * hundredths (PyFloat neg (scaled_round n (200 * c) (quotient_exponent n (200 * c)))
           (quotient_exponent n (200 * c))) + c"
    by (simp_all only: h_def m_def e_def d_def)
qed

lemma format_size_kb:
  assumes "py_int v = Inr b" "b < 1000000" "int_true_div b 1000 = Inr x"
  shows "format_size v = Inr (rstrip (CHR ''.'') (rstrip (CHR ''0'') (format_2f x)) @ '' KB'')"
  using assms by (simp add: format_size_def)

lemma format_size_mb:
  assumes "py_int v = Inr b" "\<not> b < 1000000" "int_true_div b 1000000 = Inr x"
  shows "format_size v = Inr (rstrip (CHR ''.'') (rstrip (CHR ''0'') (format_2f x)) @ '' MB'')"
  using assms by (simp add: format_size_def)

lemma overflow_bound_large: "(1000000::nat) \<le> 1000 * (2 ^ 1024 - 2 ^ 970)"
  by simp

lemma format_size_in_range:
  assumes "py_int v = Inr n"
    and "- (1000 * (2 ^ 1024 - 2 ^ 970)) < n" and "n < 1000000 * (2 ^ 1024 - 2 ^ 970)"
  shows "\<exists>s. format_size v = Inr s"
proof (cases "n < 1000000")
  case True
  have "nat \<bar>n\<bar> < nat \<bar>1000\<bar> * (2 ^ 1024 - 2 ^ 970)"
  proof (cases "n < 0")
    case True
    with assms(2) show ?thesis by simp
  next
    case False
    with \<open>n < 1000000\<close> have "nat \<bar>n\<bar> < 1000000" by simp
    with overflow_bound_large show ?thesis by simp
  qed
  from int_true_div_finite [OF _ this] obtain x where "int_true_div n 1000 = Inr x"
    by auto
  from format_size_kb [OF assms(1) True this] show ?thesis by blast
next
  case False
  with assms(3) have "nat \<bar>n\<bar> < nat \<bar>1000000\<bar> * (2 ^ 1024 - 2 ^ 970)"
    by simp
  from int_true_div_finite [OF _ this] obtain x where "int_true_div n 1000000 = Inr x"
    by auto
  from format_size_mb [OF assms(1) False this] show ?thesis by blast
qed

lemma format_size_ValueError_iff:
  "format_size v = Inl ValueError \<longleftrightarrow> py_int v = Inl ValueError"
proof (cases "py_int v")
  case (Inl err)
  then show ?thesis by (simp add: format_size_def)
next
  case (Inr n)
  have "int_true_div n d \<noteq> Inl ValueError" for d
    by (simp add: int_true_div_def Let_def)
  with Inr show ?thesis
    by (auto simp: format_size_def split: sum.splits)
qed

lemma filter_dropWhile_other:
  "(\<And>x. Q x \<Longrightarrow> \<not> P x) \<Longrightarrow> filter P (dropWhile Q xs) = filter P xs"
  by (induction xs) auto

lemma digits_py_strip: "filter is_digit (py_strip s) = filter is_digit s"
proof -
  have *: "\<And>c. is_space c \<Longrightarrow> \<not> is_digit c"
    by (auto simp: is_space_def is_digit_def)
  have "filter is_digit (py_strip s) = rev (filter is_digit (dropWhile is_space (rev (dropWhile is_space s))))"
    by (simp add: py_strip_def rev_filter)
  also have "\<dots> = rev (filter is_digit (rev (dropWhile is_space s)))"
    by (simp only: filter_dropWhile_other [of is_space is_digit, OF *])
  also have "\<dots> = filter is_digit (dropWhile is_space s)"
    by (simp add: rev_filter)
  also have "\<dots> = filter is_digit s"
    by (simp only: filter_dropWhile_other [of is_space is_digit, OF *])
  finally show ?thesis .
qed

lemma format_size_too_many_digits:
  assumes "int_max_str_digits < length (filter is_digit s)"
  shows "format_size (PyStr s) = Inl ValueError"
proof -
  from assms have "int_max_str_digits < length (filter is_digit (py_strip s))"
    by (simp only: digits_py_strip)
  then have "int_of_str s = Inl ValueError"
    by (cases "py_strip s") (simp_all add: int_of_str_def)
  then show ?thesis
    by (simp add: format_size_def)
qed

section \<open>Texts that hold only the literal URL\<close>

lemma length_badge_url: "length badge_url = 29"
  by (simp add: badge_url_def)

lemma length_url_atoms: "length url_atoms = 29"
  by (simp add: url_atoms_def length_badge_url)

lemma group1_url_atoms:
  "group1 badge_name = url_atoms @ map atom_of badge_name @ [Lit (CHR ''-'')]"
  by (simp add: group1_def url_atoms_def)

lemma prefix_take_iff: "prefix p t \<longleftrightarrow> take (length p) t = p"
proof
  assume "prefix p t"
  then show "take (length p) t = p"
    by (auto simp: prefix_def)
next
  assume "take (length p) t = p"
  then have "t = p @ drop (length p) t"
    by (metis append_take_drop_id)
  then show "prefix p t"
    by (rule prefixI)
qed

lemma match_atoms_None_take:
  "match_atoms as t = None \<longleftrightarrow> \<not> list_all2 atom_ok as (take (length as) t)"
proof (cases "match_atoms as t")
  case None
  have "\<not> list_all2 atom_ok as (take (length as) t)"
  proof
    assume *: "list_all2 atom_ok as (take (length as) t)"
    then have "length as \<le> length t"
      by (auto dest: list_all2_lengthD)
    with * have "match_atoms as t = Some (take (length as) t, drop (length as) t)"
      by (simp add: match_atoms_take_drop)
    with None show False by simp
  qed
  with None show ?thesis by simp
next
  case (Some p)
  obtain m rest where "p = (m, rest)" by (cases p)
  with Some have "list_all2 atom_ok as (take (length as) t)"
    by (simp add: match_atoms_take_drop)
  with Some show ?thesis by simp
qed

lemma literal_url_here_take:
  "literal_url_here t \<longleftrightarrow>
     \<not> list_all2 atom_ok url_atoms (take 29 t) \<or> take 29 t = badge_url"
  by (simp add: literal_url_here_def match_atoms_None_take length_url_atoms
      prefix_take_iff length_badge_url)

lemma literal_url_here_cong:
  "take 29 t = take 29 t' \<Longrightarrow> literal_url_here t = literal_url_here t'"
  by (simp add: literal_url_here_take)

lemma url_atoms_Cons: "\<exists>as. url_atoms = Lit (CHR ''h'') # as"
  by (simp add: url_atoms_def badge_url_def)

lemma literal_url_here_other:
  assumes "t = [] \<or> hd t \<noteq> CHR ''h''"
  shows "literal_url_here t"
proof -
  from url_atoms_Cons obtain as where as: "url_atoms = Lit (CHR ''h'') # as" ..
  from assms have "match_atoms url_atoms t = None"
    unfolding as by (cases t) simp_all
  then show ?thesis
    by (simp add: literal_url_here_def)
qed

lemma only_literal_url_append:
  "only_literal_url (xs @ ys) \<longleftrightarrow>
     (\<forall>i<length xs. literal_url_here (drop i xs @ ys)) \<and> only_literal_url ys"
proof (induction xs)
  case Nil
  show ?case by simp
next
  case (Cons x xs)
  show ?case
    by (simp add: Cons.IH All_less_Suc2)
qed

lemma only_literal_url_drop:
  assumes "only_literal_url s" "i < length s"
  shows "literal_url_here (drop i s)"
proof -
  from assms(1) have "only_literal_url (s @ [])" by simp
  then have "\<forall>i<length s. literal_url_here (drop i s @ [])"
    unfolding only_literal_url_append by (rule conjunct1)
  with assms(2) show ?thesis by simp
qed

text \<open>
  In the URL a hyphen is matched by a dot only, and behind each dot comes the letter
  \<^verbatim>\<open>s\<close> or \<^verbatim>\<open>i\<close>.
\<close>

lemma adjacent_zip: "xs = as @ a # b # bs \<Longrightarrow> (a, b) \<in> set (zip xs (tl xs))"
proof (induction as arbitrary: xs)
  case Nil
  then show ?case by simp
next
  case (Cons c cs)
  then obtain ys where ys: "xs = c # ys" "ys = cs @ a # b # bs"
    by simp
  from Cons.IH [OF ys(2)] have "(a, b) \<in> set (zip ys (tl ys))" .
  moreover from ys(2) have "ys \<noteq> []" by simp
  ultimately show ?case
    unfolding ys(1) by (cases ys) auto
qed

lemma url_atoms_pairs:
  "(a, b) \<in> set (zip url_atoms (tl url_atoms)) \<Longrightarrow> atom_ok a (CHR ''-'') \<Longrightarrow>
     b = Lit (CHR ''s'') \<or> b = Lit (CHR ''i'')"
  by (auto simp: url_atoms_def badge_url_def)

lemma url_atoms_hyphen:
  assumes "list_all2 atom_ok url_atoms (u @ CHR ''-'' # c # w)"
  shows "c = CHR ''s'' \<or> c = CHR ''i''"
proof -
  from assms obtain as bs where 1: "url_atoms = as @ bs"
    and 2: "list_all2 atom_ok bs (CHR ''-'' # c # w)"
    by (auto simp: list_all2_append2)
  from 2 obtain a b cs where 3: "bs = a # b # cs" "atom_ok a (CHR ''-'')" "atom_ok b c"
    by (auto simp: list_all2_Cons2)
  from 1 3(1) have "(a, b) \<in> set (zip url_atoms (tl url_atoms))"
    by (intro adjacent_zip [of _ as _ _ cs]) simp
  from url_atoms_pairs [OF this 3(2)] 3(3) show ?thesis
    by auto
qed

lemma group1_text_hyphen:
  assumes "list_all2 atom_ok (group1 badge_name) g1"
  shows "\<exists>b. g1 = b @ ''-''"
proof -
  from assms
  have "list_all2 atom_ok ((url_atoms @ map atom_of badge_name) @ [Lit (CHR ''-'')]) g1"
    by (simp add: group1_url_atoms)
  then obtain b d where "g1 = b @ d" "list_all2 atom_ok [Lit (CHR ''-'')] d"
    unfolding list_all2_append1 [of _ "url_atoms @ map atom_of badge_name"] by blast
  then show ?thesis
    by (auto simp: list_all2_Cons1)
qed

lemma size_alphabet_letters:
  assumes "c \<in> set size_alphabet"
  shows "c \<noteq> CHR ''h''" "c \<noteq> CHR ''s''" "c \<noteq> CHR ''i''"
  using assms by (auto simp: size_alphabet_def)

lemma only_literal_url_re_sub:
  assumes f: "f \<noteq> []" "list_all (\<lambda>c. c \<in> set size_alphabet) f"
  shows "only_literal_url s \<Longrightarrow> only_literal_url (re_sub badge_name f s)"
proof (induction s rule: scan_induct [where badge_name = badge_name])
  case Nil
  show ?case by (simp add: re_sub_Nil)
next
  case (skip c cs)
  from skip.prems have here: "literal_url_here (c # cs)" and rest: "only_literal_url cs"
    by simp_all
  have "(28::nat) \<le> length (group1 badge_name)"
    by (simp add: group1_url_atoms length_url_atoms)
  then have "take 28 (re_sub badge_name f cs) = take 28 cs"
    by (rule re_sub_take)
  then have "take 29 (c # re_sub badge_name f cs) = take 29 (c # cs)"
    by (simp add: take_Cons')
  from literal_url_here_cong [OF this] here skip.IH [OF rest] skip.hyps show ?case
    by (simp add: re_sub_skip)
next
  case (match s g1 g2 g3 rest)
  let ?R = "re_sub badge_name f rest"
  from match_here_Some [OF match.hyps]
  have s: "s = g1 @ g2 @ g3 @ rest" and g1: "list_all2 atom_ok (group1 badge_name) g1"
    and g3: "g3 = ''-blue''"
    by simp_all
  from match.prems have "only_literal_url (g1 @ g2 @ g3 @ rest)"
    by (simp only: s)
  then have "only_literal_url ((g1 @ g2 @ g3) @ rest)"
    by simp
  then have "only_literal_url rest"
    by (simp only: only_literal_url_append)
  from match.IH [OF this] have R: "only_literal_url ?R" .
  from group1_text_hyphen [OF g1] obtain b where b: "g1 = b @ ''-''" ..
  from f(1) obtain c f' where c: "f = c # f'"
    by (cases f) simp_all
  from f(2) c have calpha: "c \<in> set size_alphabet"
    by simp
  have tail: "only_literal_url ((f @ g3) @ ?R)"
    unfolding only_literal_url_append
  proof (intro conjI allI impI R)
    fix i assume i: "i < length (f @ g3)"
    then have ne: "drop i (f @ g3) \<noteq> []"
      by (simp del: drop_append)
    define h where "h = hd (drop i (f @ g3))"
    from ne have "h \<in> set (drop i (f @ g3))"
      unfolding h_def by (rule hd_in_set)
    then have "h \<in> set (f @ g3)"
      by (rule in_set_dropD)
    then have "h \<in> set f \<or> h \<in> set ''-blue''"
      by (auto simp: g3)
    then have "h \<noteq> CHR ''h''"
    proof
      assume "h \<in> set f"
      with f(2) have "h \<in> set size_alphabet"
        by (simp add: list_all_iff)
      then show ?thesis
        by (rule size_alphabet_letters)
    next
      assume "h \<in> set ''-blue''"
      then show ?thesis
        by auto
    qed
    with ne have "hd (drop i (f @ g3) @ ?R) \<noteq> CHR ''h''"
      by (simp add: h_def del: drop_append)
    then show "literal_url_here (drop i (f @ g3) @ ?R)"
      by (intro literal_url_here_other) simp
  qed
  have head: "literal_url_here (drop i g1 @ (f @ g3) @ ?R)" if i: "i < length g1" for i
  proof (cases "i + 29 \<le> length g1")
    case True
    then have "take 29 (drop i g1 @ (f @ g3) @ ?R) = take 29 (drop i s)"
      by (simp add: s)
    moreover from i have "i < length s"
      by (simp add: s)
    from only_literal_url_drop [OF match.prems this] have "literal_url_here (drop i s)" .
    ultimately show ?thesis
      by (simp only: literal_url_here_cong [of "drop i g1 @ (f @ g3) @ ?R" "drop i s"])
  next
    case False
    with i have ib: "i \<le> length b" and short: "length (drop i b) \<le> 27"
      by (simp_all add: b)
    let ?u = "drop i b"
    let ?w = "f' @ g3 @ ?R"
    from ib have t: "drop i g1 @ (f @ g3) @ ?R = ?u @ CHR ''-'' # c # ?w"
      by (simp add: b c)
    have "\<not> list_all2 atom_ok url_atoms (take 29 (?u @ CHR ''-'' # c # ?w))"
    proof
      assume *: "list_all2 atom_ok url_atoms (take 29 (?u @ CHR ''-'' # c # ?w))"
      from short have "take 29 (?u @ CHR ''-'' # c # ?w) =
          ?u @ CHR ''-'' # c # take (27 - length ?u) ?w"
        by (simp add: take_Cons' del: length_drop)
      with * have "list_all2 atom_ok url_atoms (?u @ CHR ''-'' # c # take (27 - length ?u) ?w)"
        by simp
      from url_atoms_hyphen [OF this] size_alphabet_letters [OF calpha] show False
        by simp
    qed
    then show ?thesis
      unfolding t by (simp add: literal_url_here_take)
  qed
  have "only_literal_url (g1 @ (f @ g3) @ ?R)"
    unfolding only_literal_url_append [of g1]
    using head tail by blast
  then show ?case
    by (simp add: re_sub_match [OF match.hyps])
qed

lemma literal_atoms:
  "CHR ''.'' \<notin> set n \<Longrightarrow> list_all2 atom_ok (map atom_of n) m \<Longrightarrow> m = n"
proof (induction n arbitrary: m)
  case Nil
  then show ?case by simp
next
  case (Cons x xs)
  then show ?case
    by (auto simp: list_all2_Cons1)
qed

lemma scan_marker:
  assumes "CHR ''.'' \<notin> set badge_name"
  shows "only_literal_url s \<Longrightarrow> list_all (marker badge_name) (scan badge_name s)"
proof (induction s rule: scan_induct [where badge_name = badge_name])
  case Nil
  show ?case by (simp add: scan_Nil)
next
  case (skip c cs)
  then show ?case by (simp add: scan_skip)
next
  case (match s g1 g2 g3 rest)
  from match_here_Some [OF match.hyps]
  have s: "s = g1 @ g2 @ g3 @ rest" and g1: "list_all2 atom_ok (group1 badge_name) g1"
    and g3: "g3 = ''-blue''" and g2: "newline \<notin> set g2"
    by simp_all
  from match.prems have "only_literal_url ((g1 @ g2 @ g3) @ rest)"
    by (simp add: s)
  then have "only_literal_url rest"
    by (simp only: only_literal_url_append)
  from match.IH [OF this] have IH: "list_all (marker badge_name) (scan badge_name rest)" .
  from g1 obtain u m d where parts: "g1 = u @ m @ d" "list_all2 atom_ok url_atoms u"
    "list_all2 atom_ok (map atom_of badge_name) m" "list_all2 atom_ok [Lit (CHR ''-'')] d"
    unfolding group1_url_atoms by (auto simp: list_all2_append1)
  from parts(2) have lu: "length u = 29"
    by (auto dest: list_all2_lengthD simp: length_url_atoms)
  from parts(4) have d: "d = ''-''"
    by (auto simp: list_all2_Cons1)
  from literal_atoms [OF assms parts(3)] have m: "m = badge_name" .
  have "s \<noteq> []"
    by (simp add: s g3)
  then have "0 < length s" by simp
  from only_literal_url_drop [OF match.prems this] have "literal_url_here s"
    by simp
  moreover have "take 29 s = u"
    using lu by (simp add: s parts(1))
  ultimately have "u = badge_url"
    using parts(2) by (simp add: literal_url_here_take)
  with m d parts(1) have "g1 = badge_url @ badge_name @ ''-''"
    by simp
  with g3 g2 IH show ?case
    by (simp add: scan_match [OF match.hyps])
qed

lemma digit_char_alphabet: "k < 10 \<Longrightarrow> digit_char k \<in> set size_alphabet"
proof -
  assume "k < 10"
  then have "digit_char k \<in> set ''0123456789''"
    unfolding digit_char_def by (intro nth_mem) simp
  then show ?thesis
    unfolding size_alphabet_def by (elim disjE | simp)+
qed

lemma dec_alphabet: "list_all (\<lambda>c. c \<in> set size_alphabet) (dec n)"
proof (induction n rule: dec.induct)
  case (1 n)
  show ?case
  proof (cases "n < 10")
    case True
    with digit_char_alphabet [of n] show ?thesis
      by (subst dec.simps) simp
  next
    case False
    have "n mod 10 < 10" by simp
    from digit_char_alphabet [OF this] 1 [OF False] False show ?thesis
      by (subst dec.simps) simp
  qed
qed

lemma format_2f_alphabet: "list_all (\<lambda>c. c \<in> set size_alphabet) (format_2f x)"
proof -
  have "hundredths x mod 100 div 10 < 10" "hundredths x mod 10 < 10"
    by simp_all
  from digit_char_alphabet [OF this(1)] digit_char_alphabet [OF this(2)]
    dec_alphabet [of "hundredths x div 100"]
  have "list_all (\<lambda>c. c \<in> set size_alphabet)
      (dec (hundredths x div 100) @
       [digit_char (hundredths x mod 100 div 10), digit_char (hundredths x mod 10)])"
    by simp
  moreover have "CHR ''-'' \<in> set size_alphabet" "CHR ''.'' \<in> set size_alphabet"
    by (simp_all add: size_alphabet_def)
  ultimately show ?thesis
    by (simp add: format_2f_def Let_def)
qed

lemma format_size_alphabet:
  assumes "format_size v = Inr f"
  shows "f \<noteq> []" "list_all (\<lambda>c. c \<in> set size_alphabet) f"
proof -
  from format_size_cases [OF assms] obtain x u where
    f: "f = rstrip (CHR ''.'') (rstrip (CHR ''0'') (format_2f x)) @ u"
    and u: "u = '' KB'' \<or> u = '' MB''"
    by blast
  from u show "f \<noteq> []"
    by (auto simp: f)
  have "list_all (\<lambda>c. c \<in> set size_alphabet)
      (rstrip (CHR ''.'') (rstrip (CHR ''0'') (format_2f x)))"
    by (intro list_all_rstrip format_2f_alphabet)
  moreover from u have "list_all (\<lambda>c. c \<in> set size_alphabet) u"
    by (auto simp: size_alphabet_def)
  ultimately show "list_all (\<lambda>c. c \<in> set size_alphabet) f"
    by (simp add: f)
qed

section \<open>Runs of the script\<close>

lemma main_usage:
  "length argv \<noteq> 3 \<Longrightarrow>
     main linesep argv fs = \<lparr>stdout = [usage], files = fs, outcome = Exit 1\<rparr>"
  by (simp add: main_def)

lemma main_success:
  assumes "length argv = 3" "readme fs = Inr raw" "write_error fs = None"
    and "format_size (PyStr (argv ! 1)) = Inr s1" "format_size (PyStr (argv ! 2)) = Inr s2"
  shows "main linesep argv fs =
     \<lparr>stdout = [],
      files = fs\<lparr>readme := Inr (write_text linesep
        (re_sub ''wasm_size'' s2 (re_sub ''binary_size'' s1 (read_text raw))))\<rparr>,
      outcome = Exit 0\<rparr>"
  using assms by (simp add: main_def update_badge_script)

lemma main_read_raises:
  assumes "length argv = 3" "readme fs = Inl err"
  shows "main linesep argv fs = \<lparr>stdout = [], files = fs, outcome = Uncaught err\<rparr>"
  using assms by (simp add: main_def)

lemma main_first_raises:
  assumes "length argv = 3" "readme fs = Inr raw"
    and "format_size (PyStr (argv ! 1)) = Inl err"
  shows "main linesep argv fs = \<lparr>stdout = [], files = fs, outcome = Uncaught err\<rparr>"
  using assms by (simp add: main_def update_badge_script)

lemma main_second_raises:
  assumes "length argv = 3" "readme fs = Inr raw"
    and "format_size (PyStr (argv ! 1)) = Inr s1" "format_size (PyStr (argv ! 2)) = Inl err"
  shows "main linesep argv fs = \<lparr>stdout = [], files = fs, outcome = Uncaught err\<rparr>"
  using assms by (simp add: main_def update_badge_script)

lemma main_write_raises:
  assumes "length argv = 3" "readme fs = Inr raw" "write_error fs = Some err"
    and "format_size (PyStr (argv ! 1)) = Inr s1" "format_size (PyStr (argv ! 2)) = Inr s2"
  shows "main linesep argv fs = \<lparr>stdout = [], files = fs, outcome = Uncaught err\<rparr>"
  using assms by (simp add: main_def update_badge_script)

lemma read_text_id: "carriage_return \<notin> set s \<Longrightarrow> read_text s = s"
  by (induction s rule: read_text.induct) auto

lemma write_text_id: "write_text [newline] s = s"
  by (induction s) (simp_all add: write_text_def)

lemma main_exit0:
  assumes "outcome (main linesep argv fs) = Exit 0"
  shows "length argv = 3 \<and>
     (\<exists>raw s1 s2. readme fs = Inr raw \<and> write_error fs = None \<and>
        format_size (PyStr (argv ! 1)) = Inr s1 \<and> format_size (PyStr (argv ! 2)) = Inr s2)"
proof -
  from assms have len: "length argv = 3"
    by (cases "length argv = 3") (simp_all add: main_def)
  with assms obtain raw where raw: "readme fs = Inr raw"
    by (cases "readme fs") (simp_all add: main_def)
  from assms len raw obtain s1 where s1: "format_size (PyStr (argv ! 1)) = Inr s1"
    by (cases "format_size (PyStr (argv ! 1))") (simp_all add: main_def update_badge_script)
  from assms len raw s1 obtain s2 where s2: "format_size (PyStr (argv ! 2)) = Inr s2"
    by (cases "format_size (PyStr (argv ! 2))") (simp_all add: main_def update_badge_script)
  from assms len raw s1 s2 have "write_error fs = None"
    by (cases "write_error fs") (simp_all add: main_def update_badge_script)
  with len raw s1 s2 show ?thesis by blast
qed

section \<open>The substituter\<close>

text \<open>
  Claim C3 says that only text with the literal prefix \<^verbatim>\<open>https://img.shields.io/badge/\<close>
  is matched. The dots of the pattern are not escaped, so the text
  \<^verbatim>\<open>https://imgxshields.io/badge/binary_size-1-blue\<close>, whose prefix differs from the
  literal one, is matched and its middle field rewritten.
\<close>

theorem update_badge_unescaped_dot:
  "update_badge ''https://imgxshields.io/badge/binary_size-1-blue'' ''binary_size'' (PyInt 1500) =
     Inr ''https://imgxshields.io/badge/binary_size-1.5 KB-blue''"
  by (simp add: format_size_eval update_badge_eval regex_eval)

text \<open>
  Claim C4 as stated (without the pattern in the text, \<^verbatim>\<open>update_badge\<close> returns the text
  and raises nothing) fails: the size is formatted before the text is looked at, so a
  size that \<^verbatim>\<open>int\<close> rejects raises \<^verbatim>\<open>ValueError\<close> also when the text has no badge.
\<close>

theorem update_badge_no_match_raises:
  "\<not> has_match ''binary_size'' ''# README'' \<and>
   update_badge ''# README'' ''binary_size'' (PyStr ''abc'') = Inl ValueError"
  by (simp add: format_size_eval update_badge_eval regex_eval)

text \<open>
  Claim C4, amended. For every text without an occurrence of the pattern of the badge
  name, and every size that \<^verbatim>\<open>format_size\<close> accepts, \<^verbatim>\<open>update_badge\<close> returns the text
  unchanged and raises no error.
\<close>

theorem update_badge_no_match:
  assumes "plain_name badge_name"
    and "\<not> has_match badge_name content"
    and "format_size size_in_bytes = Inr formatted_size"
  shows "update_badge content badge_name size_in_bytes = Inr content"
  using assms(2,3) by (simp add: update_badge_plain [OF assms(1)] re_sub_no_match)

theorem update_badge_no_match_witness:
  "plain_name ''wasm_size'' \<and>
   \<not> has_match ''wasm_size'' ''see https://img.shields.io/badge/binary_size-1 KB-blue'' \<and>
   format_size (PyStr ''2000000'') = Inr ''2 MB'' \<and>
   update_badge ''see https://img.shields.io/badge/binary_size-1 KB-blue'' ''wasm_size''
     (PyStr ''2000000'') = Inr ''see https://img.shields.io/badge/binary_size-1 KB-blue''"
proof -
  have 1: "plain_name ''wasm_size''"
    by (simp add: regex_eval)
  have 2: "\<not> has_match ''wasm_size'' ''see https://img.shields.io/badge/binary_size-1 KB-blue''"
    by (simp add: regex_eval)
  have 3: "format_size (PyStr ''2000000'') = Inr ''2 MB''"
    by (simp add: format_size_eval)
  from update_badge_no_match [OF 1 2 3] 1 2 3 show ?thesis
    by blast
qed

text \<open>
  Claim C7. Whatever the number of occurrences of the pattern in the text,
  \<^verbatim>\<open>update_badge\<close> rewrites every occurrence that the pass from the left finds, each with
  the same formatted size: the result is the text of the pieces, with the second group of
  every occurrence replaced, and the pieces are the text itself.
\<close>

theorem update_badge_rewrites_every_occurrence:
  assumes "plain_name badge_name"
    and "format_size size_in_bytes = Inr formatted_size"
  shows "update_badge content badge_name size_in_bytes =
           Inr (concat (map (rewritten formatted_size) (scan badge_name content))) \<and>
         concat (map original (scan badge_name content)) = content \<and>
         list_all (well_formed badge_name) (scan badge_name content)"
  using assms(2)
  by (simp add: update_badge_plain [OF assms(1)] re_sub_scan original_scan scan_well_formed)

theorem update_badge_rewrites_every_occurrence_witness:
  "plain_name ''binary_size'' \<and>
   format_size (PyInt 1500) = Inr ''1.5 KB'' \<and>
   scan ''binary_size''
     ''https://img.shields.io/badge/binary_size-1-blue https://img.shields.io/badge/binary_size-2-blue'' =
     [Badge ''https://img.shields.io/badge/binary_size-'' ''1'' ''-blue'', Kept (CHR '' ''),
      Badge ''https://img.shields.io/badge/binary_size-'' ''2'' ''-blue''] \<and>
   update_badge
     ''https://img.shields.io/badge/binary_size-1-blue https://img.shields.io/badge/binary_size-2-blue''
     ''binary_size'' (PyInt 1500) =
     Inr ''https://img.shields.io/badge/binary_size-1.5 KB-blue https://img.shields.io/badge/binary_size-1.5 KB-blue''"
proof -
  have 1: "plain_name ''binary_size''"
    by (simp add: regex_eval)
  have 2: "format_size (PyInt 1500) = Inr ''1.5 KB''"
    by (simp add: format_size_eval)
  have 3: "scan ''binary_size''
     ''https://img.shields.io/badge/binary_size-1-blue https://img.shields.io/badge/binary_size-2-blue'' =
     [Badge ''https://img.shields.io/badge/binary_size-'' ''1'' ''-blue'', Kept (CHR '' ''),
      Badge ''https://img.shields.io/badge/binary_size-'' ''2'' ''-blue'']"
    by (simp add: regex_eval)
  from update_badge_rewrites_every_occurrence [OF 1 2,
      of "''https://img.shields.io/badge/binary_size-1-blue https://img.shields.io/badge/binary_size-2-blue''"]
  have "update_badge
     ''https://img.shields.io/badge/binary_size-1-blue https://img.shields.io/badge/binary_size-2-blue''
     ''binary_size'' (PyInt 1500) =
     Inr ''https://img.shields.io/badge/binary_size-1.5 KB-blue https://img.shields.io/badge/binary_size-1.5 KB-blue''"
    by (simp add: 3)
  with 1 2 3 show ?thesis
    by blast
qed

text \<open>
  Claim C9 as stated (\<^verbatim>\<open>update_badge\<close> is idempotent for every text, badge name and
  size) fails: the badge name is part of the pattern. With the name \<^verbatim>\<open>q(?:-0 KB)?\<close> and
  the size 0, the first call on \<^verbatim>\<open>https://img.shields.io/badge/q-x-blue-blue\<close> puts
  \<^verbatim>\<open>0 KB\<close> in the place of \<^verbatim>\<open>x\<close>; in the second call the optional group of the name
  takes that \<^verbatim>\<open>-0 KB\<close> into group 1, the middle field is now the first \<^verbatim>\<open>blue\<close>, and
  the output of the second call differs from its input.
\<close>

theorem update_badge_not_idempotent:
  "update_badge ''https://img.shields.io/badge/q-x-blue-blue'' ''q(?:-0 KB)?'' (PyInt 0) =
     Inr ''https://img.shields.io/badge/q-0 KB-blue-blue'' \<and>
   update_badge ''https://img.shields.io/badge/q-0 KB-blue-blue'' ''q(?:-0 KB)?'' (PyInt 0) =
     Inr ''https://img.shields.io/badge/q-0 KB-0 KB-blue'' \<and>
   ''https://img.shields.io/badge/q-0 KB-0 KB-blue'' \<noteq>
     ''https://img.shields.io/badge/q-0 KB-blue-blue''"
  by (simp add: format_size_eval update_badge_eval regex_eval items_eval)

text \<open>
  Claim C9, amended. For a badge name in which the dot is the only character special to
  \<^verbatim>\<open>re\<close>, and every text and size, \<^verbatim>\<open>update_badge\<close> is idempotent: applied with the
  same badge name and size to its own output, it returns that output unchanged.
\<close>

theorem update_badge_idempotent:
  assumes "plain_name badge_name"
    and "update_badge content badge_name size_in_bytes = Inr content'"
  shows "update_badge content' badge_name size_in_bytes = Inr content'"
proof -
  from assms(2) obtain f where f: "format_size size_in_bytes = Inr f"
    and c: "content' = re_sub badge_name f content"
    by (cases "format_size size_in_bytes") (auto simp: update_badge_plain [OF assms(1)])
  from format_size_text [OF f] have "re_sub badge_name f content' = content'"
    unfolding c by (rule re_sub_idempotent)
  with f show ?thesis by (simp add: update_badge_plain [OF assms(1)])
qed

theorem update_badge_idempotent_witness:
  "plain_name ''binary_size'' \<and>
   update_badge ''x https://img.shields.io/badge/binary_size-9.99 KB-blue y'' ''binary_size''
     (PyStr ''5000000'') = Inr ''x https://img.shields.io/badge/binary_size-5 MB-blue y'' \<and>
   update_badge ''x https://img.shields.io/badge/binary_size-5 MB-blue y'' ''binary_size''
     (PyStr ''5000000'') = Inr ''x https://img.shields.io/badge/binary_size-5 MB-blue y''"
proof -
  have 1: "plain_name ''binary_size''"
    by (simp add: regex_eval)
  have 2: "update_badge ''x https://img.shields.io/badge/binary_size-9.99 KB-blue y''
     ''binary_size'' (PyStr ''5000000'') =
     Inr ''x https://img.shields.io/badge/binary_size-5 MB-blue y''"
    by (simp add: format_size_eval update_badge_eval regex_eval)
  from update_badge_idempotent [OF 1 2] 1 2 show ?thesis
    by blast
qed



section \<open>The formatter\<close>

text \<open>
  Claim C1 as stated (for every non-negative byte count \<^verbatim>\<open>format_size\<close> returns the
  rendered quotient) fails: the quotient is a double, and at \<open>1000000 * 2 ^ 1024\<close> bytes
  the true division raises \<^verbatim>\<open>OverflowError\<close>.
\<close>

theorem format_size_overflow:
  "(0::int) \<le> 1000000 * 2 ^ 1024 \<and>
   format_size (PyInt (1000000 * 2 ^ 1024)) = Inl OverflowError"
  by (simp add: format_size_eval)

text \<open>
  Claim C1, amended. For every byte count \<open>b\<close> with
  \<open>0 \<le> b < 1000000 * (2 ^ 1024 - 2 ^ 970)\<close>, \<^verbatim>\<open>format_size\<close> returns the double \<open>x\<close>
  nearest to \<open>b / 1000\<close> (below 1,000,000) or to \<open>b / 1000000\<close> (otherwise), rendered with
  two decimal digits, with trailing zeros and then a trailing point stripped, followed by
  \<^verbatim>\<open>" KB"\<close> or \<^verbatim>\<open>" MB"\<close>. The two decimals are those of \<open>hundredths x\<close>: in the kilobyte
  branch, and in the megabyte branch below \<open>1000000 * 2 ^ 34\<close> bytes, that number of
  hundredths is within one half of the exact quotient's.
\<close>

theorem format_size_renders:
  assumes "0 \<le> b" and "b < 1000000 * (2 ^ 1024 - 2 ^ 970)"
  shows "\<exists>x. int_true_div b (if b < 1000000 then 1000 else 1000000) = Inr x \<and>
           \<not> negative x \<and>
           format_size (PyInt b) =
             Inr (rstrip (CHR ''.'') (rstrip (CHR ''0'') (format_2f x)) @
                  (if b < 1000000 then '' KB'' else '' MB'')) \<and>
           (b < 1000000 \<longrightarrow> \<bar>10 * int (hundredths x) - b\<bar> \<le> 5) \<and>
           (1000000 \<le> b \<and> b < 1000000 * 2 ^ 34 \<longrightarrow>
              \<bar>10000 * int (hundredths x) - b\<bar> \<le> 5000)"
proof (cases "b < 1000000")
  case True
  define n where "n = nat b"
  from assms(1) True have n: "b = int n" "n < 1000000" by (simp_all add: n_def)
  from n(2) overflow_bound_large have "nat \<bar>b\<bar> < nat \<bar>1000\<bar> * (2 ^ 1024 - 2 ^ 970)"
    by (simp add: n(1))
  from int_true_div_finite [OF _ this]
  obtain x where x: "int_true_div b 1000 = Inr x"
    and xv: "x = (if b = 0 then PyFloat False 0 0
        else PyFloat False (scaled_round n 1000 (quotient_exponent n 1000))
               (quotient_exponent n 1000))"
    using assms(1) by (simp add: n(1))
  from xv have sign: "\<not> negative x" by simp
  have acc: "\<bar>10 * int (hundredths x) - b\<bar> \<le> 5"
  proof (cases "b = 0")
    case True
    with xv show ?thesis
      by (simp add: hundredths_def scaled_round_def round_half_even_def)
  next
    case False
    with n have pos: "0 < n" by simp
    from n(2) have "n < 200 * 5 * 2 ^ 10" by simp
    from hundredths_accurate [OF pos _ this, of False] False xv
    have "2 * 5 * hundredths x \<le> n + 5" "n \<le> 2 * 5 * hundredths x + 5"
      by simp_all
    then show ?thesis by (simp add: n(1))
  qed
  from format_size_kb [OF _ True x, of "PyInt b"] x sign acc True show ?thesis
    by auto
next
  case False
  define n where "n = nat b"
  from assms(1) False have n: "b = int n" "1000000 \<le> n" by (simp_all add: n_def)
  from assms(2) have "nat \<bar>b\<bar> < nat \<bar>1000000\<bar> * (2 ^ 1024 - 2 ^ 970)"
    by (simp add: n(1))
  from int_true_div_finite [OF _ this]
  obtain x where x: "int_true_div b 1000000 = Inr x"
    and xv: "x = PyFloat False (scaled_round n 1000000 (quotient_exponent n 1000000))
               (quotient_exponent n 1000000)"
    using n(2) by (simp add: n(1))
  from xv have sign: "\<not> negative x" by simp
  have acc: "\<bar>10000 * int (hundredths x) - b\<bar> \<le> 5000" if "b < 1000000 * 2 ^ 34"
  proof -
    from n(2) have pos: "0 < n" by simp
    from that have "n < 200 * 5000 * 2 ^ 34" by (simp add: n(1))
    from hundredths_accurate [OF pos _ this, of False] xv
    have "2 * 5000 * hundredths x \<le> n + 5000" "n \<le> 2 * 5000 * hundredths x + 5000"
      by simp_all
    then show ?thesis by (simp add: n(1))
  qed
  from format_size_mb [OF _ False x, of "PyInt b"] x sign acc False show ?thesis
    by auto
qed

theorem format_size_renders_witness:
  "(0::int) \<le> 1234 \<and> (1234::int) < 1000000 * (2 ^ 1024 - 2 ^ 970) \<and>
   (\<exists>x. int_true_div 1234 1000 = Inr x \<and> \<not> negative x \<and>
      format_size (PyInt 1234) =
        Inr (rstrip (CHR ''.'') (rstrip (CHR ''0'') (format_2f x)) @ '' KB'') \<and>
      \<bar>10 * int (hundredths x) - 1234\<bar> \<le> 5) \<and>
   format_size (PyInt 1234) = Inr ''1.23 KB'' \<and>
   (0::int) \<le> 1234000 \<and> (1234000::int) < 1000000 * (2 ^ 1024 - 2 ^ 970) \<and>
   (\<exists>x. int_true_div 1234000 1000000 = Inr x \<and> \<not> negative x \<and>
      format_size (PyInt 1234000) =
        Inr (rstrip (CHR ''.'') (rstrip (CHR ''0'') (format_2f x)) @ '' MB'') \<and>
      \<bar>10000 * int (hundredths x) - 1234000\<bar> \<le> 5000) \<and>
   format_size (PyInt 1234000) = Inr ''1.23 MB''"
proof -
  have 1: "(0::int) \<le> 1234" "(1234::int) < 1000000 * (2 ^ 1024 - 2 ^ 970)"
    by simp_all
  have 2: "(0::int) \<le> 1234000" "(1234000::int) < 1000000 * (2 ^ 1024 - 2 ^ 970)"
    by simp_all
  from format_size_renders [OF 1]
  have 3: "\<exists>x. int_true_div 1234 1000 = Inr x \<and> \<not> negative x \<and>
      format_size (PyInt 1234) =
        Inr (rstrip (CHR ''.'') (rstrip (CHR ''0'') (format_2f x)) @ '' KB'') \<and>
      \<bar>10 * int (hundredths x) - 1234\<bar> \<le> 5"
    by simp
  from format_size_renders [OF 2]
  have 4: "\<exists>x. int_true_div 1234000 1000000 = Inr x \<and> \<not> negative x \<and>
      format_size (PyInt 1234000) =
        Inr (rstrip (CHR ''.'') (rstrip (CHR ''0'') (format_2f x)) @ '' MB'') \<and>
      \<bar>10000 * int (hundredths x) - 1234000\<bar> \<le> 5000"
    by simp
  have 5: "format_size (PyInt 1234) = Inr ''1.23 KB''"
    by (simp add: format_size_eval)
  have 6: "format_size (PyInt 1234000) = Inr ''1.23 MB''"
    by (simp add: format_size_eval)
  show ?thesis
    by (intro conjI; fact)
qed

text \<open>
  Claim C6 as stated (no error for any integer or integer-valued string) fails: the string
  of a one and 315 zeros, well below the limit on the digits, is an integer for \<^verbatim>\<open>int\<close>,
  and \<^verbatim>\<open>format_size\<close> raises \<^verbatim>\<open>OverflowError\<close> on it.
\<close>

theorem format_size_overflow_string:
  "py_int (PyStr ''1000000000000000000000000000000000000000000000000000000000000000000000000000000000000000000000000000000000000000000000000000000000000000000000000000000000000000000000000000000000000000000000000000000000000000000000000000000000000000000000000000000000000000000000000000000000000000000000000000000000000000000000000000'') = Inr (10 ^ 315) \<and>
   format_size (PyStr ''1000000000000000000000000000000000000000000000000000000000000000000000000000000000000000000000000000000000000000000000000000000000000000000000000000000000000000000000000000000000000000000000000000000000000000000000000000000000000000000000000000000000000000000000000000000000000000000000000000000000000000000000000000'') = Inl OverflowError"
  by (simp add: format_size_eval)

text \<open>
  Claim C6, amended. \<^verbatim>\<open>format_size\<close> raises \<^verbatim>\<open>ValueError\<close> exactly when \<^verbatim>\<open>int\<close> rejects
  its input, as it does every string with more than 4300 digits. For an input that \<^verbatim>\<open>int\<close>
  reads as \<open>n\<close> with \<open>- 1000 * (2 ^ 1024 - 2 ^ 970) < n < 1000000 * (2 ^ 1024 - 2 ^ 970)\<close>
  no error is raised. An error that \<^verbatim>\<open>format_size\<close> raises on either argument of the
  script, after \<^verbatim>\<open>README.md\<close> was read, is not caught: the process ends with it, and
  the file is left as it was.
\<close>

theorem format_size_errors:
  "(format_size v = Inl ValueError \<longleftrightarrow> py_int v = Inl ValueError) \<and>
   (int_max_str_digits < length (filter is_digit s) \<longrightarrow>
      format_size (PyStr s) = Inl ValueError) \<and>
   (py_int v = Inr n \<and> - (1000 * (2 ^ 1024 - 2 ^ 970)) < n \<and>
    n < 1000000 * (2 ^ 1024 - 2 ^ 970) \<longrightarrow> (\<exists>s. format_size v = Inr s)) \<and>
   (length argv = 3 \<and> readme fs = Inr raw \<and>
    format_size (PyStr (argv ! 1)) = Inl err \<longrightarrow>
      main linesep argv fs = \<lparr>stdout = [], files = fs, outcome = Uncaught err\<rparr>) \<and>
   (length argv = 3 \<and> readme fs = Inr raw \<and>
    format_size (PyStr (argv ! 1)) = Inr s1 \<and> format_size (PyStr (argv ! 2)) = Inl err \<longrightarrow>
      main linesep argv fs = \<lparr>stdout = [], files = fs, outcome = Uncaught err\<rparr>)"
  using format_size_ValueError_iff format_size_too_many_digits format_size_in_range
    main_first_raises main_second_raises
  by (intro conjI impI; blast)

theorem format_size_errors_witness:
  "py_int (PyStr ''abc'') = Inl ValueError \<and>
   format_size (PyStr ''abc'') = Inl ValueError \<and>
   int_max_str_digits < length (filter is_digit (replicate 4301 (CHR ''0''))) \<and>
   format_size (PyStr (replicate 4301 (CHR ''0''))) = Inl ValueError \<and>
   py_int (PyStr '' 1_500 '') = Inr 1500 \<and>
   - (1000 * (2 ^ 1024 - 2 ^ 970)) < (1500::int) \<and>
   (1500::int) < 1000000 * (2 ^ 1024 - 2 ^ 970) \<and>
   (\<exists>s. format_size (PyStr '' 1_500 '') = Inr s) \<and>
   format_size (PyStr ([''update_readme.py'', ''abc'', ''1500''] ! 1)) = Inl ValueError \<and>
   main [newline] [''update_readme.py'', ''abc'', ''1500'']
     \<lparr>readme = Inr ''# README'', write_error = None\<rparr> =
     \<lparr>stdout = [],
      files = \<lparr>readme = Inr ''# README'', write_error = None\<rparr>,
      outcome = Uncaught ValueError\<rparr> \<and>
   format_size (PyStr ([''update_readme.py'', ''1500'', ''abc''] ! 1)) = Inr ''1.5 KB'' \<and>
   format_size (PyStr ([''update_readme.py'', ''1500'', ''abc''] ! 2)) = Inl ValueError \<and>
   main [newline] [''update_readme.py'', ''1500'', ''abc'']
     \<lparr>readme = Inr ''# README'', write_error = None\<rparr> =
     \<lparr>stdout = [],
      files = \<lparr>readme = Inr ''# README'', write_error = None\<rparr>,
      outcome = Uncaught ValueError\<rparr>"
proof -
  let ?fs = "\<lparr>readme = Inr ''# README'', write_error = None\<rparr>"
  have 1: "py_int (PyStr ''abc'') = Inl ValueError"
    by (simp add: format_size_eval)
  from format_size_errors [of "PyStr ''abc''"] 1
  have 2: "format_size (PyStr ''abc'') = Inl ValueError"
    by blast
  have d: "int_max_str_digits < length (filter is_digit (replicate 4301 (CHR ''0'')))"
    by (simp add: int_max_str_digits_def is_digit_def)
  from format_size_errors [of _ "replicate 4301 (CHR ''0'')"] d
  have d': "format_size (PyStr (replicate 4301 (CHR ''0''))) = Inl ValueError"
    by blast
  have 3: "py_int (PyStr '' 1_500 '') = Inr 1500"
    by (simp add: format_size_eval)
  have 4: "- (1000 * (2 ^ 1024 - 2 ^ 970)) < (1500::int)"
    "(1500::int) < 1000000 * (2 ^ 1024 - 2 ^ 970)"
    by simp_all
  from format_size_errors [of "PyStr '' 1_500 ''" _ 1500] 3 4
  have 5: "\<exists>s. format_size (PyStr '' 1_500 '') = Inr s"
    by blast
  have 6: "format_size (PyStr ([''update_readme.py'', ''abc'', ''1500''] ! 1)) = Inl ValueError"
    using 2 by simp
  have 7: "length [''update_readme.py'', ''abc'', ''1500''] = 3" "readme ?fs = Inr ''# README''"
    by simp_all
  from format_size_errors [of _ _ _ "[''update_readme.py'', ''abc'', ''1500'']" ?fs "''# README''"
      ValueError "[newline]"] 6 7
  have 8: "main [newline] [''update_readme.py'', ''abc'', ''1500''] ?fs =
     \<lparr>stdout = [], files = ?fs, outcome = Uncaught ValueError\<rparr>"
    by blast
  have 9: "format_size (PyStr ([''update_readme.py'', ''1500'', ''abc''] ! 1)) = Inr ''1.5 KB''"
    by (simp add: format_size_eval)
  have 10: "format_size (PyStr ([''update_readme.py'', ''1500'', ''abc''] ! 2)) = Inl ValueError"
    using 2 by simp
  have 11: "length [''update_readme.py'', ''1500'', ''abc''] = 3"
    by simp
  from format_size_errors [of _ _ _ "[''update_readme.py'', ''1500'', ''abc'']" ?fs "''# README''"
      ValueError "[newline]" "''1.5 KB''"] 9 10 11 7(2)
  have 12: "main [newline] [''update_readme.py'', ''1500'', ''abc''] ?fs =
     \<lparr>stdout = [], files = ?fs, outcome = Uncaught ValueError\<rparr>"
    by blast
  show ?thesis
    by (intro conjI; fact)
qed

text \<open>
  Claim C8. \<^verbatim>\<open>format_size\<close> returns \<^verbatim>\<open>"1 KB"\<close> at 1000, \<^verbatim>\<open>"1.5 KB"\<close> at 1500,
  \<^verbatim>\<open>"1.23 MB"\<close> at 1234000, \<^verbatim>\<open>"2 MB"\<close> at 2000000, \<^verbatim>\<open>"500 KB"\<close> at the string
  \<^verbatim>\<open>"500000"\<close> and \<^verbatim>\<open>"1 MB"\<close> at the string \<^verbatim>\<open>"1000000"\<close>: the byte count
  1,000,000 is formatted in megabytes.
\<close>

theorem format_size_examples:
  "format_size (PyInt 1000) = Inr ''1 KB'' \<and>
   format_size (PyInt 1500) = Inr ''1.5 KB'' \<and>
   format_size (PyInt 1234000) = Inr ''1.23 MB'' \<and>
   format_size (PyInt 2000000) = Inr ''2 MB'' \<and>
   format_size (PyStr ''500000'') = Inr ''500 KB'' \<and>
   format_size (PyStr ''1000000'') = Inr ''1 MB''"
  by (simp add: format_size_eval)

section \<open>The script as a whole\<close>

text \<open>
  Claim C2 as stated (the written document is byte-identical to the original outside the
  size fields) fails: the file is read and written in text mode. On a platform whose line
  separator is the line feed, a document with the line \<^verbatim>\<open>a\<close> ended by carriage return
  and line feed, and no badge at all, is written back with the carriage return gone.
\<close>

theorem main_rewrites_line_endings:
  "main [newline] [''update_readme.py'', ''1500'', ''2000000'']
     \<lparr>readme = Inr (''a'' @ [carriage_return, newline] @ ''b''), write_error = None\<rparr> =
     \<lparr>stdout = [],
      files = \<lparr>readme = Inr (''a'' @ [newline] @ ''b''), write_error = None\<rparr>,
      outcome = Exit 0\<rparr> \<and>
   \<not> has_match ''binary_size'' (''a'' @ [carriage_return, newline] @ ''b'') \<and>
   \<not> has_match ''wasm_size'' (''a'' @ [carriage_return, newline] @ ''b'') \<and>
   ''a'' @ [newline] @ ''b'' \<noteq> ''a'' @ [carriage_return, newline] @ ''b''"
  by (simp add: format_size_eval main_eval update_badge_eval regex_eval)

text \<open>
  Claim C2, amended. Take a document that holds only the literal URL: wherever the URL part
  of the pattern, with its two unescaped dots, matches in the text that is read, the text is
  \<^verbatim>\<open>https://img.shields.io/badge/\<close> itself. After a successful run the file holds the
  text that was read (the original with \<^verbatim>\<open>\r\n\<close> and \<^verbatim>\<open>\r\<close> turned into \<^verbatim>\<open>\n\<close>),
  changed only in the middle field of markers of \<^verbatim>\<open>binary_size\<close> and then of markers of
  \<^verbatim>\<open>wasm_size\<close>, each the literal prefix, a middle field on one line and the suffix
  \<^verbatim>\<open>-blue\<close>, and written with every \<^verbatim>\<open>\n\<close> as the platform's line separator. For an
  original without carriage return, on a platform whose line separator is the line feed,
  reading and writing change nothing: the written document is the original but for those
  size fields.
\<close>

theorem main_changes_only_size_fields:
  assumes "outcome (main linesep argv fs) = Exit 0"
    and "readme fs = Inr raw"
    and "only_literal_url (read_text raw)"
  shows "\<exists>s1 s2 c1 c2.
     format_size (PyStr (argv ! 1)) = Inr s1 \<and> format_size (PyStr (argv ! 2)) = Inr s2 \<and>
     concat (map original (scan ''binary_size'' (read_text raw))) = read_text raw \<and>
     list_all (marker ''binary_size'') (scan ''binary_size'' (read_text raw)) \<and>
     c1 = concat (map (rewritten s1) (scan ''binary_size'' (read_text raw))) \<and>
     concat (map original (scan ''wasm_size'' c1)) = c1 \<and>
     list_all (marker ''wasm_size'') (scan ''wasm_size'' c1) \<and>
     c2 = concat (map (rewritten s2) (scan ''wasm_size'' c1)) \<and>
     main linesep argv fs =
       \<lparr>stdout = [], files = fs\<lparr>readme := Inr (write_text linesep c2)\<rparr>, outcome = Exit 0\<rparr> \<and>
     (carriage_return \<notin> set raw \<longrightarrow> read_text raw = raw) \<and>
     (linesep = [newline] \<longrightarrow> write_text linesep c2 = c2)"
proof -
  from main_exit0 [OF assms(1)] assms(2) obtain s1 s2 where
    *: "length argv = 3" "readme fs = Inr raw" "write_error fs = None"
    "format_size (PyStr (argv ! 1)) = Inr s1" "format_size (PyStr (argv ! 2)) = Inr s2"
    by auto
  define c1 where "c1 = concat (map (rewritten s1) (scan ''binary_size'' (read_text raw)))"
  define c2 where "c2 = concat (map (rewritten s2) (scan ''wasm_size'' c1))"
  have c1: "c1 = re_sub ''binary_size'' s1 (read_text raw)"
    by (simp only: c1_def re_sub_scan)
  have m1: "list_all (marker ''binary_size'') (scan ''binary_size'' (read_text raw))"
    by (rule scan_marker [OF _ assms(3)]) simp
  from only_literal_url_re_sub [OF format_size_alphabet [OF *(4)] assms(3)]
  have "only_literal_url c1"
    by (simp only: c1)
  then have m2: "list_all (marker ''wasm_size'') (scan ''wasm_size'' c1)"
    by (rule scan_marker [rotated]) simp
  have "main linesep argv fs =
       \<lparr>stdout = [], files = fs\<lparr>readme := Inr (write_text linesep c2)\<rparr>, outcome = Exit 0\<rparr>"
    unfolding main_success [OF *] c2_def c1_def by (simp only: re_sub_scan)
  moreover have "carriage_return \<notin> set raw \<longrightarrow> read_text raw = raw"
    by (simp add: read_text_id)
  moreover have "linesep = [newline] \<longrightarrow> write_text linesep c2 = c2"
    by (simp add: write_text_id)
  ultimately show ?thesis
    using *(4,5) c1_def c2_def original_scan m1 m2 by blast
qed

theorem main_changes_only_size_fields_witness:
  "outcome (main [newline] [''update_readme.py'', ''1500'', ''2000000'']
     \<lparr>readme = Inr (''[b](https://img.shields.io/badge/binary_size-1 KB-blue)'' @ [newline] @
        ''[w](https://img.shields.io/badge/wasm_size-2 KB-blue)'' @ [newline]),
      write_error = None\<rparr>) = Exit 0 \<and>
   only_literal_url (read_text
     (''[b](https://img.shields.io/badge/binary_size-1 KB-blue)'' @ [newline] @
      ''[w](https://img.shields.io/badge/wasm_size-2 KB-blue)'' @ [newline])) \<and>
   (\<exists>s1 s2 c1 c2.
     format_size (PyStr ([''update_readme.py'', ''1500'', ''2000000''] ! 1)) = Inr s1 \<and>
     format_size (PyStr ([''update_readme.py'', ''1500'', ''2000000''] ! 2)) = Inr s2 \<and>
     concat (map original (scan ''binary_size'' (read_text
       (''[b](https://img.shields.io/badge/binary_size-1 KB-blue)'' @ [newline] @
        ''[w](https://img.shields.io/badge/wasm_size-2 KB-blue)'' @ [newline])))) =
       read_text (''[b](https://img.shields.io/badge/binary_size-1 KB-blue)'' @ [newline] @
        ''[w](https://img.shields.io/badge/wasm_size-2 KB-blue)'' @ [newline]) \<and>
     list_all (marker ''binary_size'') (scan ''binary_size'' (read_text
       (''[b](https://img.shields.io/badge/binary_size-1 KB-blue)'' @ [newline] @
        ''[w](https://img.shields.io/badge/wasm_size-2 KB-blue)'' @ [newline]))) \<and>
     c1 = concat (map (rewritten s1) (scan ''binary_size'' (read_text
       (''[b](https://img.shields.io/badge/binary_size-1 KB-blue)'' @ [newline] @
        ''[w](https://img.shields.io/badge/wasm_size-2 KB-blue)'' @ [newline])))) \<and>
     concat (map original (scan ''wasm_size'' c1)) = c1 \<and>
     list_all (marker ''wasm_size'') (scan ''wasm_size'' c1) \<and>
     c2 = concat (map (rewritten s2) (scan ''wasm_size'' c1)) \<and>
     main [newline] [''update_readme.py'', ''1500'', ''2000000'']
       \<lparr>readme = Inr (''[b](https://img.shields.io/badge/binary_size-1 KB-blue)'' @ [newline] @
          ''[w](https://img.shields.io/badge/wasm_size-2 KB-blue)'' @ [newline]),
        write_error = None\<rparr> =
       \<lparr>stdout = [],
        files = \<lparr>readme = Inr (''[b](https://img.shields.io/badge/binary_size-1 KB-blue)'' @
            [newline] @ ''[w](https://img.shields.io/badge/wasm_size-2 KB-blue)'' @ [newline]),
          write_error = None\<rparr>\<lparr>readme := Inr (write_text [newline] c2)\<rparr>,
        outcome = Exit 0\<rparr> \<and>
     (carriage_return \<notin> set (''[b](https://img.shields.io/badge/binary_size-1 KB-blue)'' @
          [newline] @ ''[w](https://img.shields.io/badge/wasm_size-2 KB-blue)'' @ [newline]) \<longrightarrow>
        read_text (''[b](https://img.shields.io/badge/binary_size-1 KB-blue)'' @ [newline] @
          ''[w](https://img.shields.io/badge/wasm_size-2 KB-blue)'' @ [newline]) =
        ''[b](https://img.shields.io/badge/binary_size-1 KB-blue)'' @ [newline] @
          ''[w](https://img.shields.io/badge/wasm_size-2 KB-blue)'' @ [newline]) \<and>
     ([newline] = [newline] \<longrightarrow> write_text [newline] c2 = c2)) \<and>
   main [newline] [''update_readme.py'', ''1500'', ''2000000'']
     \<lparr>readme = Inr (''[b](https://img.shields.io/badge/binary_size-1 KB-blue)'' @ [newline] @
        ''[w](https://img.shields.io/badge/wasm_size-2 KB-blue)'' @ [newline]),
      write_error = None\<rparr> =
     \<lparr>stdout = [],
      files = \<lparr>readme = Inr (''[b](https://img.shields.io/badge/binary_size-1.5 KB-blue)'' @
          [newline] @ ''[w](https://img.shields.io/badge/wasm_size-2 MB-blue)'' @ [newline]),
        write_error = None\<rparr>,
      outcome = Exit 0\<rparr>"
  (is "?H \<and> ?U \<and> ?C \<and> ?E")
proof -
  let ?raw = "''[b](https://img.shields.io/badge/binary_size-1 KB-blue)'' @ [newline] @
        ''[w](https://img.shields.io/badge/wasm_size-2 KB-blue)'' @ [newline]"
  let ?fs = "\<lparr>readme = Inr ?raw, write_error = None\<rparr>"
  have e: ?E
    by (simp add: format_size_eval main_eval update_badge_eval regex_eval)
  then have h: ?H
    by simp
  have r: "readme ?fs = Inr ?raw"
    by simp
  have u: ?U
    by (simp add: literal_url_here_def url_atoms_def badge_url_def newline_def
        carriage_return_def)
  from main_changes_only_size_fields [OF h r u] have c: ?C .
  from h u c e show ?thesis
    by (intro conjI)
qed

text \<open>
  Claim C5 as stated (two valid integer arguments give a written result and the exit status
  0) fails: without the file \<^verbatim>\<open>README.md\<close> the run ends with an uncaught
  \<^verbatim>\<open>FileNotFoundError\<close> and nothing is written.
\<close>

theorem main_missing_file:
  "format_size (PyStr ''1500'') = Inr ''1.5 KB'' \<and>
   format_size (PyStr ''2000000'') = Inr ''2 MB'' \<and>
   main [newline] [''update_readme.py'', ''1500'', ''2000000'']
     \<lparr>readme = Inl FileNotFoundError, write_error = None\<rparr> =
     \<lparr>stdout = [], files = \<lparr>readme = Inl FileNotFoundError, write_error = None\<rparr>,
      outcome = Uncaught FileNotFoundError\<rparr> \<and>
   exit_status (Uncaught FileNotFoundError) = 1"
  by (simp add: format_size_eval main_eval)

text \<open>
  Claim C5, amended. With a number of positional arguments other than two, the script prints
  the usage line and ends with the exit status 1, whatever the file system holds, which it
  leaves as it is. With two arguments that \<^verbatim>\<open>format_size\<close> accepts and a file
  \<^verbatim>\<open>README.md\<close> that is read without error (it exists, may be read, and its bytes are
  text in the encoding of the locale) and opened for writing without error, it applies
  \<^verbatim>\<open>update_badge\<close> for \<^verbatim>\<open>binary_size\<close> with the first argument, then for
  \<^verbatim>\<open>wasm_size\<close> with the second, writes the result and ends with the exit status 0. With
  two arguments and a file that is not read without error, or, behind two accepted arguments,
  not opened for writing without error, the exception is not caught: the exit status is 1
  and the file is left as it is.
\<close>

theorem main_behaviour:
  "(length argv \<noteq> 3 \<longrightarrow>
      main linesep argv fs = \<lparr>stdout = [usage], files = fs, outcome = Exit 1\<rparr>) \<and>
   (length argv = 3 \<and> readme fs = Inr raw \<and> write_error fs = None \<and>
    format_size (PyStr (argv ! 1)) = Inr s1 \<and> format_size (PyStr (argv ! 2)) = Inr s2 \<longrightarrow>
      (\<exists>c1 c2.
         update_badge (read_text raw) ''binary_size'' (PyStr (argv ! 1)) = Inr c1 \<and>
         c1 = re_sub ''binary_size'' s1 (read_text raw) \<and>
         update_badge c1 ''wasm_size'' (PyStr (argv ! 2)) = Inr c2 \<and>
         c2 = re_sub ''wasm_size'' s2 c1 \<and>
         main linesep argv fs =
           \<lparr>stdout = [], files = fs\<lparr>readme := Inr (write_text linesep c2)\<rparr>,
            outcome = Exit 0\<rparr>)) \<and>
   (length argv = 3 \<and> readme fs = Inl err \<longrightarrow>
      main linesep argv fs = \<lparr>stdout = [], files = fs, outcome = Uncaught err\<rparr> \<and>
      exit_status (outcome (main linesep argv fs)) = 1) \<and>
   (length argv = 3 \<and> readme fs = Inr raw \<and> write_error fs = Some err \<and>
    format_size (PyStr (argv ! 1)) = Inr s1 \<and> format_size (PyStr (argv ! 2)) = Inr s2 \<longrightarrow>
      main linesep argv fs = \<lparr>stdout = [], files = fs, outcome = Uncaught err\<rparr> \<and>
      exit_status (outcome (main linesep argv fs)) = 1)"
proof (intro conjI impI)
  assume "length argv \<noteq> 3"
  then show "main linesep argv fs = \<lparr>stdout = [usage], files = fs, outcome = Exit 1\<rparr>"
    by (rule main_usage)
next
  assume "length argv = 3 \<and> readme fs = Inr raw \<and> write_error fs = None \<and>
    format_size (PyStr (argv ! 1)) = Inr s1 \<and> format_size (PyStr (argv ! 2)) = Inr s2"
  then have *: "length argv = 3" "readme fs = Inr raw" "write_error fs = None"
    "format_size (PyStr (argv ! 1)) = Inr s1" "format_size (PyStr (argv ! 2)) = Inr s2"
    by simp_all
  from main_success [OF *] *(4,5)
  show "\<exists>c1 c2.
         update_badge (read_text raw) ''binary_size'' (PyStr (argv ! 1)) = Inr c1 \<and>
         c1 = re_sub ''binary_size'' s1 (read_text raw) \<and>
         update_badge c1 ''wasm_size'' (PyStr (argv ! 2)) = Inr c2 \<and>
         c2 = re_sub ''wasm_size'' s2 c1 \<and>
         main linesep argv fs =
           \<lparr>stdout = [], files = fs\<lparr>readme := Inr (write_text linesep c2)\<rparr>,
            outcome = Exit 0\<rparr>"
    by (simp add: update_badge_script)
next
  assume *: "length argv = 3 \<and> readme fs = Inl err"
  then show "main linesep argv fs = \<lparr>stdout = [], files = fs, outcome = Uncaught err\<rparr>"
    by (simp add: main_read_raises)
  from * show "exit_status (outcome (main linesep argv fs)) = 1"
    by (simp add: main_read_raises)
next
  assume "length argv = 3 \<and> readme fs = Inr raw \<and> write_error fs = Some err \<and>
    format_size (PyStr (argv ! 1)) = Inr s1 \<and> format_size (PyStr (argv ! 2)) = Inr s2"
  then have *: "length argv = 3" "readme fs = Inr raw" "write_error fs = Some err"
    "format_size (PyStr (argv ! 1)) = Inr s1" "format_size (PyStr (argv ! 2)) = Inr s2"
    by simp_all
  from main_write_raises [OF *]
  show "main linesep argv fs = \<lparr>stdout = [], files = fs, outcome = Uncaught err\<rparr>"
    "exit_status (outcome (main linesep argv fs)) = 1"
    by simp_all
qed

theorem main_behaviour_witness:
  "length [''update_readme.py''] \<noteq> 3 \<and>
   main [newline] [''update_readme.py''] \<lparr>readme = Inl FileNotFoundError, write_error = None\<rparr> =
     \<lparr>stdout = [usage], files = \<lparr>readme = Inl FileNotFoundError, write_error = None\<rparr>,
      outcome = Exit 1\<rparr> \<and>
   length [''update_readme.py'', ''1500'', ''2000000''] = 3 \<and>
   format_size (PyStr ([''update_readme.py'', ''1500'', ''2000000''] ! 1)) = Inr ''1.5 KB'' \<and>
   format_size (PyStr ([''update_readme.py'', ''1500'', ''2000000''] ! 2)) = Inr ''2 MB'' \<and>
   main [newline] [''update_readme.py'', ''1500'', ''2000000'']
     \<lparr>readme = Inr (''[b](https://img.shields.io/badge/binary_size-1 KB-blue)'' @ [newline] @
        ''[w](https://img.shields.io/badge/wasm_size-2 KB-blue)'' @ [newline]),
      write_error = None\<rparr> =
     \<lparr>stdout = [],
      files = \<lparr>readme = Inr (''[b](https://img.shields.io/badge/binary_size-1.5 KB-blue)'' @
          [newline] @ ''[w](https://img.shields.io/badge/wasm_size-2 MB-blue)'' @ [newline]),
        write_error = None\<rparr>,
      outcome = Exit 0\<rparr> \<and>
   main [newline] [''update_readme.py'', ''1500'', ''2000000'']
     \<lparr>readme = Inl UnicodeDecodeError, write_error = None\<rparr> =
     \<lparr>stdout = [], files = \<lparr>readme = Inl UnicodeDecodeError, write_error = None\<rparr>,
      outcome = Uncaught UnicodeDecodeError\<rparr> \<and>
   main [newline] [''update_readme.py'', ''1500'', ''2000000'']
     \<lparr>readme = Inr ''# README'', write_error = Some PermissionError\<rparr> =
     \<lparr>stdout = [], files = \<lparr>readme = Inr ''# README'', write_error = Some PermissionError\<rparr>,
      outcome = Uncaught PermissionError\<rparr>"
  (is "?A \<and> ?B \<and> ?L \<and> ?F1 \<and> ?F2 \<and> ?E \<and> ?D \<and> ?W")
proof -
  let ?argv = "[''update_readme.py'', ''1500'', ''2000000'']"
  let ?raw = "''[b](https://img.shields.io/badge/binary_size-1 KB-blue)'' @ [newline] @
        ''[w](https://img.shields.io/badge/wasm_size-2 KB-blue)'' @ [newline]"
  let ?fs = "\<lparr>readme = Inr ?raw, write_error = None\<rparr>"
  let ?fd = "\<lparr>readme = Inl UnicodeDecodeError, write_error = None\<rparr>"
  let ?fw = "\<lparr>readme = Inr ''# README'', write_error = Some PermissionError\<rparr>"
  have a: ?A by simp
  from main_behaviour [of "[''update_readme.py'']" "[newline]"
      "\<lparr>readme = Inl FileNotFoundError, write_error = None\<rparr>"] a
  have b: ?B by blast
  have l: ?L by simp
  have f1: ?F1 by (simp add: format_size_eval)
  have f2: ?F2 by (simp add: format_size_eval)
  have rw: "readme ?fs = Inr ?raw" "write_error ?fs = None" by simp_all
  from main_behaviour [of ?argv "[newline]" ?fs ?raw "''1.5 KB''" "''2 MB''"] l rw f1 f2
  have "main [newline] ?argv ?fs =
      \<lparr>stdout = [],
       files = ?fs\<lparr>readme := Inr (write_text [newline]
         (re_sub ''wasm_size'' ''2 MB'' (re_sub ''binary_size'' ''1.5 KB'' (read_text ?raw))))\<rparr>,
       outcome = Exit 0\<rparr>"
    by blast
  also have "write_text [newline]
         (re_sub ''wasm_size'' ''2 MB'' (re_sub ''binary_size'' ''1.5 KB'' (read_text ?raw))) =
       ''[b](https://img.shields.io/badge/binary_size-1.5 KB-blue)'' @
          [newline] @ ''[w](https://img.shields.io/badge/wasm_size-2 MB-blue)'' @ [newline]"
    by (simp add: regex_eval write_text_def carriage_return_def)
  finally have e: ?E by simp
  have "readme ?fd = Inl UnicodeDecodeError" by simp
  with main_behaviour [of ?argv "[newline]" ?fd _ _ _ UnicodeDecodeError] l
  have d: ?D by blast
  have "readme ?fw = Inr ''# README''" "write_error ?fw = Some PermissionError" by simp_all
  with main_behaviour [of ?argv "[newline]" ?fw "''# README''" "''1.5 KB''" "''2 MB''" PermissionError]
    l f1 f2
  have w: ?W by blast
  from a b l f1 f2 e d w show ?thesis
    by (intro conjI)
qed

end
